theory Spec2Isabelle
  imports Complex_Main "HOL-Library.Product_Lexorder" "HOL-Library.Monad_Syntax"
    "HOL-Library.Multiset"
    "HOL-Library.Log_Nat"
begin

section \<open>Characters and strings\<close>

text \<open>
  A Python \<open>str\<close> is modelled as a \<open>string\<close> whose characters are read as the code
  points 0..255.  In that range the decimal digits (\<open>\d\<close>) are \<open>0\<close>..\<open>9\<close>, and the
  white space of \<open>str.strip\<close>, \<open>str.isspace\<close> and \<open>\s\<close> is the set below.
\<close>

definition isspace :: "char \<Rightarrow> bool" where
  "isspace c = ((of_char c :: nat) \<in> set [9, 10, 11, 12, 13, 28, 29, 30, 31, 32, 133, 160])"

definition isdigit :: "char \<Rightarrow> bool" where
  "isdigit c = (48 \<le> (of_char c :: nat) \<and> (of_char c :: nat) \<le> 57)"

definition notnl :: "char \<Rightarrow> bool" where
  \<comment> \<open>the regular expression \<open>.\<close> (without DOTALL): anything but a line feed\<close>
  "notnl c = (c \<noteq> CHR 0x0A)"

definition in_range :: "char \<Rightarrow> char \<Rightarrow> char \<Rightarrow> bool" where
  \<comment> \<open>a character class \<open>[a-b]\<close>\<close>
  "in_range a b c = ((of_char a :: nat) \<le> of_char c \<and> (of_char c :: nat) \<le> of_char b)"

definition lower :: "char \<Rightarrow> char" where
  "lower c = (if in_range CHR ''A'' CHR ''Z'' c then char_of ((of_char c :: nat) + 32) else c)"

definition strip :: "string \<Rightarrow> string" where
  \<comment> \<open>\<open>str.strip()\<close>: leading and trailing white space removed\<close>
  "strip s = rev (dropWhile isspace (rev (dropWhile isspace s)))"

definition py_int :: "string \<Rightarrow> int" where
  \<comment> \<open>\<open>int(s)\<close> on a string of decimal digits, white space around it ignored\<close>
  "py_int s = foldl (\<lambda>a c. 10 * a + (int (of_char c) - 48)) 0 (strip s)"

section \<open>Regular expressions as backtracking matchers\<close>

text \<open>
  A matcher returns the list of its successes in the order in which the backtracking
  engine of \<open>re\<close> tries them: each success is the text consumed and the rest of the
  input.  \<open>re.match\<close> is the first success of the whole pattern.
\<close>

fun runs :: "(char \<Rightarrow> bool) \<Rightarrow> string \<Rightarrow> (string \<times> string) list" where
  "runs P [] = [([], [])]"
| "runs P (c # cs) =
     ([], c # cs) # (if P c then map (\<lambda>(a, r). (c # a, r)) (runs P cs) else [])"

definition rep_greedy :: "(char \<Rightarrow> bool) \<Rightarrow> nat \<Rightarrow> nat \<Rightarrow> string \<Rightarrow> (string \<times> string) list" where
  \<comment> \<open>\<open>[P]{lo,hi}\<close>: the longest repetition first\<close>
  "rep_greedy P lo hi s = filter (\<lambda>(a, r). lo \<le> length a \<and> length a \<le> hi) (rev (runs P s))"

definition star_greedy :: "(char \<Rightarrow> bool) \<Rightarrow> string \<Rightarrow> (string \<times> string) list" where
  \<comment> \<open>\<open>[P]*\<close>\<close>
  "star_greedy P s = rev (runs P s)"

definition plus_greedy :: "(char \<Rightarrow> bool) \<Rightarrow> string \<Rightarrow> (string \<times> string) list" where
  \<comment> \<open>\<open>[P]+\<close>\<close>
  "plus_greedy P s = filter (\<lambda>(a, r). a \<noteq> []) (rev (runs P s))"

definition star_lazy :: "(char \<Rightarrow> bool) \<Rightarrow> string \<Rightarrow> (string \<times> string) list" where
  \<comment> \<open>\<open>[P]*?\<close>: the shortest repetition first\<close>
  "star_lazy P s = runs P s"

definition lit :: "string \<Rightarrow> string \<Rightarrow> string list" where
  \<comment> \<open>a literal piece of the pattern; the success is the rest of the input\<close>
  "lit p s = (if take (length p) s = p then [drop (length p) s] else [])"

definition lit_ci :: "string \<Rightarrow> string \<Rightarrow> (string \<times> string) list" where
  \<comment> \<open>a literal under \<open>re.IGNORECASE\<close>; the success keeps the text as matched\<close>
  "lit_ci p s = (if map lower (take (length p) s) = map lower p
                 then [(take (length p) s, drop (length p) s)] else [])"

definition cls :: "(char \<Rightarrow> bool) list \<Rightarrow> string \<Rightarrow> (string \<times> string) list" where
  \<comment> \<open>a sequence of character classes, one character each\<close>
  "cls ps s = (if length ps \<le> length s \<and> list_all2 (\<lambda>p c. p c) ps (take (length ps) s)
               then [(take (length ps) s, drop (length ps) s)] else [])"

definition dollar :: "string \<Rightarrow> bool" where
  \<comment> \<open>\<open>$\<close> (without MULTILINE): at the end, or before a line feed that ends the input\<close>
  "dollar r = (r = [] \<or> r = [CHR 0x0A])"

definition first :: "'a list \<Rightarrow> 'a option" where
  "first xs = (case xs of [] \<Rightarrow> None | x # _ \<Rightarrow> Some x)"

definition is_apm :: "char \<Rightarrow> bool" where
  \<comment> \<open>the class \<open>[APMapm]\<close>\<close>
  "is_apm c = (c \<in> set ''APMapm'')"

text \<open>\<^verbatim>\<open>ADDED_PATTERN = re.compile(r"^(.*) added (.*)$")\<close>, groups 1 and 2.\<close>

definition ADDED_PATTERN :: "string \<Rightarrow> (string \<times> string) option" where
  "ADDED_PATTERN s = first (do {
     (g1, r1) \<leftarrow> star_greedy notnl s;
     r2 \<leftarrow> lit '' added '' r1;
     (g2, r3) \<leftarrow> star_greedy notnl r2;
     if dollar r3 then [(g1, g2)] else []
   })"

text \<open>\<^verbatim>\<open>JOINED_PATTERN = re.compile(r"^(.*) joined using this group's invite link$")\<close>,
  group 1.\<close>

definition JOINED_PATTERN :: "string \<Rightarrow> string option" where
  "JOINED_PATTERN s = first (do {
     (g1, r1) \<leftarrow> star_greedy notnl s;
     r2 \<leftarrow> lit ('' joined using this group'' @ [CHR 0x27] @ ''s invite link'') r1;
     if dollar r2 then [g1] else []
   })"

text \<open>
  \<^verbatim>\<open>LINE_PATTERN = re.compile(r"^(\d{1,2}/\d{1,2}/\d{2,4}, \d{1,2}:\d{2}(?:\s?[APMapm]{2})?) - (.*?): (.*)$")\<close>,
  groups 1, 2 and 3.  Group 1 is the text consumed up to the end of the optional
  meridiem.
\<close>

definition LINE_PATTERN :: "string \<Rightarrow> (string \<times> string \<times> string) option" where
  "LINE_PATTERN s = first (do {
     (d1, r1) \<leftarrow> rep_greedy isdigit 1 2 s;
     r2 \<leftarrow> lit ''/'' r1;
     (d2, r3) \<leftarrow> rep_greedy isdigit 1 2 r2;
     r4 \<leftarrow> lit ''/'' r3;
     (d3, r5) \<leftarrow> rep_greedy isdigit 2 4 r4;
     r6 \<leftarrow> lit '', '' r5;
     (d4, r7) \<leftarrow> rep_greedy isdigit 1 2 r6;
     r8 \<leftarrow> lit '':'' r7;
     (d5, r9) \<leftarrow> rep_greedy isdigit 2 2 r8;
     r10 \<leftarrow> (do {
         (w, q1) \<leftarrow> rep_greedy isspace 0 1 r9;
         (ap, q2) \<leftarrow> rep_greedy is_apm 2 2 q1;
         [q2]
       }) @ [r9];
     r11 \<leftarrow> lit '' - '' r10;
     (sender, r12) \<leftarrow> star_lazy notnl r11;
     r13 \<leftarrow> lit '': '' r12;
     (msg, r14) \<leftarrow> star_greedy notnl r13;
     if dollar r14 then [(take (length s - length r10) s, sender, msg)] else []
   })"

section \<open>Dates and times\<close>

text \<open>
  A naive \<open>datetime.datetime\<close>.  The constructor raises \<open>ValueError\<close> on fields out
  of range (\<open>datetime_new\<close> returns \<open>None\<close>); comparison is that of the tuples of
  fields; the difference of two values is a \<open>timedelta\<close>, whose \<open>days\<close> is the
  number of whole days, rounded down.
\<close>

record datetime =
  year :: int
  month :: int
  day :: int
  hour :: int
  minute :: int
  second :: int
  microsecond :: int

definition is_leap :: "int \<Rightarrow> bool" where
  "is_leap y = (y mod 4 = 0 \<and> (y mod 100 \<noteq> 0 \<or> y mod 400 = 0))"

definition days_in_month :: "int \<Rightarrow> int \<Rightarrow> int" where
  "days_in_month y m =
     (if m = 2 \<and> is_leap y then 29
      else [31, 28, 31, 30, 31, 30, 31, 31, 30, 31, 30, 31] ! nat (m - 1))"

definition days_before_year :: "int \<Rightarrow> int" where
  "days_before_year y =
     (let z = y - 1 in z * 365 + z div 4 - z div 100 + z div 400)"

definition days_before_month :: "int \<Rightarrow> int \<Rightarrow> int" where
  "days_before_month y m =
     [0, 31, 59, 90, 120, 151, 181, 212, 243, 273, 304, 334] ! nat (m - 1)
       + (if m > 2 \<and> is_leap y then 1 else 0)"

definition ymd2ord :: "int \<Rightarrow> int \<Rightarrow> int \<Rightarrow> int" where
  "ymd2ord y m d = days_before_year y + days_before_month y m + d"

definition valid_date :: "int \<Rightarrow> int \<Rightarrow> int \<Rightarrow> bool" where
  "valid_date y m d =
     (1 \<le> y \<and> y \<le> 9999 \<and> 1 \<le> m \<and> m \<le> 12 \<and> 1 \<le> d \<and> d \<le> days_in_month y m)"

definition valid_time :: "int \<Rightarrow> int \<Rightarrow> int \<Rightarrow> int \<Rightarrow> bool" where
  "valid_time h mi s us =
     (0 \<le> h \<and> h \<le> 23 \<and> 0 \<le> mi \<and> mi \<le> 59 \<and> 0 \<le> s \<and> s \<le> 59 \<and> 0 \<le> us \<and> us \<le> 999999)"

definition datetime_new :: "int \<Rightarrow> int \<Rightarrow> int \<Rightarrow> int \<Rightarrow> int \<Rightarrow> int \<Rightarrow> int \<Rightarrow> datetime option" where
  "datetime_new y m d h mi s us =
     (if valid_date y m d \<and> valid_time h mi s us
      then Some \<lparr>year = y, month = m, day = d, hour = h, minute = mi, second = s,
                 microsecond = us\<rparr>
      else None)"

definition dt_key :: "datetime \<Rightarrow> int \<times> int \<times> int \<times> int \<times> int \<times> int \<times> int" where
  "dt_key t = (year t, month t, day t, hour t, minute t, second t, microsecond t)"

definition dt_gt :: "datetime \<Rightarrow> datetime \<Rightarrow> bool" where
  \<comment> \<open>\<open>a > b\<close> on datetimes\<close>
  "dt_gt a b = (dt_key b < dt_key a)"

definition toordinal :: "datetime \<Rightarrow> int" where
  "toordinal t = ymd2ord (year t) (month t) (day t)"

definition timedelta_days :: "datetime \<Rightarrow> datetime \<Rightarrow> int" where
  \<comment> \<open>\<open>(a - b).days\<close>\<close>
  "timedelta_days a b =
     (let days = toordinal a - toordinal b;
          secs = (second a + minute a * 60 + hour a * 3600)
                   - (second b + minute b * 60 + hour b * 3600);
          us = microsecond a - microsecond b
      in ((days * 86400 + secs) * 1000000 + us) div (86400 * 1000000))"

section \<open>\<open>datetime.strptime\<close>\<close>

text \<open>
  \<open>strptime\<close> turns the format into a regular expression (white space of the format
  becomes \<open>\s+\<close>, \<open>%x\<close> the expression of the directive \<open>x\<close>, anything else stands
  for itself), compiled with IGNORECASE, and matches it at the start of the data.  It
  raises \<open>ValueError\<close> when there is no match, when the match leaves text behind, and
  when the fields are not a date.  Only the directives that \<open>parse_date\<close> uses are
  modelled; the meridiem of \<open>%p\<close> is that of the C and English locales, \<open>am\<close> and \<open>pm\<close>.
\<close>

datatype item = Dir char | Lit char | Spaces | Stray

fun pattern :: "string \<Rightarrow> item list" where
  "pattern [] = []"
| "pattern [c] =
     (if c = CHR ''%'' then [Stray] else if isspace c then [Spaces] else [Lit c])"
| "pattern (c # d # cs) =
     (if c = CHR ''%'' then Dir d # pattern cs
      else if isspace c then
        (case pattern (d # cs) of Spaces # its \<Rightarrow> Spaces # its | its \<Rightarrow> Spaces # its)
      else Lit c # pattern (d # cs))"

text \<open>
  The expressions of the directives:
  \<^verbatim>\<open>%d\<close> is \<^verbatim>\<open>3[0-1]|[1-2]\d|0[1-9]|[1-9]| [1-9]\<close>,
  \<^verbatim>\<open>%m\<close> and \<^verbatim>\<open>%I\<close> are \<^verbatim>\<open>1[0-2]|0[1-9]|[1-9]\<close>,
  \<^verbatim>\<open>%H\<close> is \<^verbatim>\<open>2[0-3]|[0-1]\d|\d\<close>,
  \<^verbatim>\<open>%M\<close> is \<^verbatim>\<open>[0-5]\d|\d\<close>,
  \<^verbatim>\<open>%y\<close> is \<^verbatim>\<open>\d\d\<close>, \<^verbatim>\<open>%Y\<close> is \<^verbatim>\<open>\d\d\d\d\<close>,
  \<^verbatim>\<open>%p\<close> is \<^verbatim>\<open>am|pm\<close>.
\<close>

definition directive :: "char \<Rightarrow> string \<Rightarrow> (string \<times> string) list" where
  "directive x s =
    (if x = CHR ''d'' then
       cls [(=) CHR ''3'', in_range CHR ''0'' CHR ''1''] s
       @ cls [in_range CHR ''1'' CHR ''2'', isdigit] s
       @ cls [(=) CHR ''0'', in_range CHR ''1'' CHR ''9''] s
       @ cls [in_range CHR ''1'' CHR ''9''] s
       @ cls [(=) CHR '' '', in_range CHR ''1'' CHR ''9''] s
     else if x = CHR ''m'' \<or> x = CHR ''I'' then
       cls [(=) CHR ''1'', in_range CHR ''0'' CHR ''2''] s
       @ cls [(=) CHR ''0'', in_range CHR ''1'' CHR ''9''] s
       @ cls [in_range CHR ''1'' CHR ''9''] s
     else if x = CHR ''H'' then
       cls [(=) CHR ''2'', in_range CHR ''0'' CHR ''3''] s
       @ cls [in_range CHR ''0'' CHR ''1'', isdigit] s
       @ cls [isdigit] s
     else if x = CHR ''M'' then
       cls [in_range CHR ''0'' CHR ''5'', isdigit] s
       @ cls [isdigit] s
     else if x = CHR ''y'' then
       cls [isdigit, isdigit] s
     else if x = CHR ''Y'' then
       cls [isdigit, isdigit, isdigit, isdigit] s
     else if x = CHR ''p'' then
       lit_ci ''am'' s @ lit_ci ''pm'' s
     else [])"

fun match_items :: "item list \<Rightarrow> string \<Rightarrow> ((char \<times> string) list \<times> string) list" where
  "match_items [] s = [([], s)]"
| "match_items (Lit c # its) s = do {
     (t, r) \<leftarrow> lit_ci [c] s;
     match_items its r
   }"
| "match_items (Spaces # its) s = do {
     (w, r) \<leftarrow> plus_greedy isspace s;
     match_items its r
   }"
| "match_items (Dir x # its) s = do {
     (v, r) \<leftarrow> directive x s;
     (found, r') \<leftarrow> match_items its r;
     [((x, v) # found, r')]
   }"
| "match_items (Stray # its) s = []"

record tm =
  tm_year :: "int option"
  tm_month :: int
  tm_day :: int
  tm_hour :: int
  tm_minute :: int

definition convert :: "(char \<rightharpoonup> string) \<Rightarrow> tm \<Rightarrow> char \<times> string \<Rightarrow> tm" where
  \<comment> \<open>one round of the loop over the groups that were found\<close>
  "convert found_dict t kv = (case kv of (group_key, v) \<Rightarrow>
     if group_key = CHR ''y'' then
       t\<lparr>tm_year := Some (let y = py_int v in if y \<le> 68 then y + 2000 else y + 1900)\<rparr>
     else if group_key = CHR ''Y'' then t\<lparr>tm_year := Some (py_int v)\<rparr>
     else if group_key = CHR ''m'' then t\<lparr>tm_month := py_int v\<rparr>
     else if group_key = CHR ''d'' then t\<lparr>tm_day := py_int v\<rparr>
     else if group_key = CHR ''H'' then t\<lparr>tm_hour := py_int v\<rparr>
     else if group_key = CHR ''I'' then
       (let h = py_int v;
            ampm = map lower (case found_dict CHR ''p'' of None \<Rightarrow> [] | Some a \<Rightarrow> a)
        in if ampm = [] \<or> ampm = ''am'' then t\<lparr>tm_hour := (if h = 12 then 0 else h)\<rparr>
           else if ampm = ''pm'' then t\<lparr>tm_hour := (if h \<noteq> 12 then h + 12 else h)\<rparr>
           else t\<lparr>tm_hour := h\<rparr>)
     else if group_key = CHR ''M'' then t\<lparr>tm_minute := py_int v\<rparr>
     else t)"

definition strptime :: "string \<Rightarrow> string \<Rightarrow> datetime option" where
  \<comment> \<open>\<open>None\<close> is \<open>ValueError\<close>\<close>
  "strptime data_string format =
     (case first (match_items (pattern format) data_string) of
        None \<Rightarrow> None
      | Some (found, rest) \<Rightarrow>
          if rest \<noteq> [] then None
          else
            let t = foldl (convert (map_of found))
                      \<lparr>tm_year = None, tm_month = 1, tm_day = 1, tm_hour = 0, tm_minute = 0\<rparr>
                      found;
                leap_year_fix = (tm_year t = None \<and> tm_month t = 2 \<and> tm_day t = 29);
                y = (case tm_year t of Some y \<Rightarrow> y
                     | None \<Rightarrow> if leap_year_fix then 1904 else 1900)
            in if \<not> valid_date y (tm_month t) (tm_day t) then None
               else datetime_new (if leap_year_fix then 1900 else y) (tm_month t) (tm_day t)
                      (tm_hour t) (tm_minute t) 0 0)"

definition formats :: "string list" where
  "formats = [''%d/%m/%Y, %H:%M'', ''%d/%m/%y, %H:%M'', ''%m/%d/%Y, %I:%M %p'',
              ''%m/%d/%y, %I:%M %p'']"

fun try_formats :: "string \<Rightarrow> string list \<Rightarrow> datetime option" where
  \<comment> \<open>the loop of \<open>parse_date\<close>: \<open>ValueError\<close> moves on to the next format\<close>
  "try_formats date_str [] = None"
| "try_formats date_str (fmt # fmts) =
     (case strptime date_str fmt of Some dt \<Rightarrow> Some dt | None \<Rightarrow> try_formats date_str fmts)"

definition parse_date :: "string \<Rightarrow> datetime option" where
  "parse_date date_str = try_formats date_str formats"

section \<open>Floating point\<close>

text \<open>
  A finite \<open>float\<close> is the rational number it denotes.  \<open>fl\<close> rounds a rational to
  the nearest binary64 value, ties to the even significand (53 bits, the exponent of the
  least normal value is -1022, below it the values are 2^-1074 apart).  Division of two
  integers and multiplication are correctly rounded; \<open>round(x, 2)\<close> is the float
  nearest to the decimal with two places nearest to \<open>x\<close>, ties to the even digit.
  The values below stay within 0..100, far from overflow, which is not modelled.
\<close>

definition pow2 :: "int \<Rightarrow> rat" where
  "pow2 e = (if 0 \<le> e then 2 ^ nat e else 1 / 2 ^ nat (- e))"

definition rhe :: "rat \<Rightarrow> int" where
  \<comment> \<open>the nearest integer, ties to even\<close>
  "rhe q =
     (let f = \<lfloor>q\<rfloor>; r = q - of_int f
      in if r < 1 / 2 then f else if 1 / 2 < r then f + 1 else if even f then f else f + 1)"

definition ilog2 :: "rat \<Rightarrow> int" where
  \<comment> \<open>for \<open>0 < q\<close>, the \<open>e\<close> with \<open>2^e \<le> q < 2^(e + 1)\<close>\<close>
  "ilog2 q =
     (case quotient_of q of (a, b) \<Rightarrow>
        let d = bitlen a - bitlen b in if pow2 d \<le> q then d else d - 1)"

definition fl :: "rat \<Rightarrow> rat" where
  "fl q =
     (if q = 0 then 0
      else let e = max (ilog2 \<bar>q\<bar>) (- 1022); u = pow2 (e - 52)
           in of_int (rhe (q / u)) * u)"

definition truediv :: "int \<Rightarrow> int \<Rightarrow> rat" where
  \<comment> \<open>\<open>a / b\<close> on integers, \<open>b\<close> not zero\<close>
  "truediv a b = fl (of_int a / of_int b)"

definition float_mul :: "rat \<Rightarrow> rat \<Rightarrow> rat" where
  "float_mul x y = fl (x * y)"

definition py_round :: "rat \<Rightarrow> nat \<Rightarrow> rat" where
  \<comment> \<open>\<open>round(x, ndigits)\<close> on a float\<close>
  "py_round x ndigits = fl (of_int (rhe (x * 10 ^ ndigits)) / 10 ^ ndigits)"

section \<open>\<open>analyze_chat\<close>\<close>

text \<open>
  \<open>participants\<close> is a \<open>defaultdict\<close>: a dictionary in insertion order, modelled as
  an association list with one entry for each key.  Reading a missing key appends the
  default value.  The file is the list of its lines.
\<close>

record stats =
  messages :: int
  last_msg :: "datetime option"

record final_stats = stats +
  contribution :: rat

type_synonym participants = "(string \<times> stats) list"

definition default_stats :: stats where
  "default_stats = \<lparr>messages = 0, last_msg = None\<rparr>"

definition touch :: "string \<Rightarrow> participants \<Rightarrow> participants" where
  \<comment> \<open>\<open>participants[k]\<close>, for its effect\<close>
  "touch k ps = (case map_of ps k of None \<Rightarrow> ps @ [(k, default_stats)] | Some v \<Rightarrow> ps)"

definition getitem :: "participants \<Rightarrow> string \<Rightarrow> stats" where
  \<comment> \<open>\<open>participants[k]\<close>, for its value, after \<open>touch\<close>\<close>
  "getitem ps k = (case map_of ps k of None \<Rightarrow> default_stats | Some v \<Rightarrow> v)"

definition modify :: "string \<Rightarrow> (stats \<Rightarrow> stats) \<Rightarrow> participants \<Rightarrow> participants" where
  \<comment> \<open>an assignment to a field of \<open>participants[k]\<close>\<close>
  "modify k f ps = map (\<lambda>(k', v). if k' = k then (k', f v) else (k', v)) (touch k ps)"

fun process_line :: "participants \<times> int \<Rightarrow> string \<Rightarrow> participants \<times> int" where
  \<comment> \<open>the body of the loop over the lines of the file\<close>
  "process_line (participants, total_messages) raw =
    (let line = strip raw in
     case ADDED_PATTERN line of
       Some (g1, g2) \<Rightarrow> (touch (strip g2) participants, total_messages)
     | None \<Rightarrow>
        (case JOINED_PATTERN line of
           Some g1 \<Rightarrow> (touch (strip g1) participants, total_messages)
         | None \<Rightarrow>
            (case LINE_PATTERN line of
               None \<Rightarrow> (participants, total_messages)
             | Some (date_str, sender, msg) \<Rightarrow>
                (case parse_date date_str of
                   None \<Rightarrow> (participants, total_messages)
                 | Some dt \<Rightarrow>
                    let ps1 = modify sender (\<lambda>v. v\<lparr>messages := messages v + 1\<rparr>) participants;
                        total1 = total_messages + 1;
                        ps2 = (case last_msg (getitem ps1 sender) of
                                 None \<Rightarrow> modify sender (\<lambda>v. v\<lparr>last_msg := Some dt\<rparr>) ps1
                               | Some l \<Rightarrow>
                                   if dt_gt dt l
                                   then modify sender (\<lambda>v. v\<lparr>last_msg := Some dt\<rparr>) ps1
                                   else ps1)
                    in (ps2, total1)))))"

definition ingest_lines :: "string list \<Rightarrow> participants \<times> int" where
  \<comment> \<open>the state after the loop\<close>
  "ingest_lines lines = foldl process_line ([], 0) lines"

definition contribution_of :: "int \<Rightarrow> int \<Rightarrow> rat" where
  "contribution_of m total_messages =
     (if total_messages \<noteq> 0 then py_round (float_mul (truediv m total_messages) 100) 2 else 0)"

fun finalize :: "participants \<times> int \<Rightarrow> (string \<times> final_stats) list \<times> int" where
  \<comment> \<open>the loop that stores the contribution, and the return\<close>
  "finalize (participants, total_messages) =
     (map (\<lambda>(sender, v). (sender,
         \<lparr>messages = messages v, last_msg = last_msg v,
          contribution = contribution_of (messages v) total_messages\<rparr>)) participants,
      total_messages)"

definition analyze_chat :: "string list \<Rightarrow> (string \<times> final_stats) list \<times> int" where
  "analyze_chat lines = finalize (ingest_lines lines)"

section \<open>Status, report, export and chart\<close>

text \<open>\<open>datetime.now()\<close> is a parameter of each function that calls it.\<close>

definition is_active :: "datetime \<Rightarrow> int \<Rightarrow> final_stats \<Rightarrow> bool" where
  \<comment> \<open>the condition of \<open>member_status_counts\<close>\<close>
  "is_active now inactivity_days v =
     (messages v \<ge> 1 \<and> contribution v \<ge> 1 \<and>
      (case last_msg v of None \<Rightarrow> False | Some l \<Rightarrow> timedelta_days now l \<le> inactivity_days))"

definition member_status_counts ::
  "datetime \<Rightarrow> (string \<times> final_stats) list \<Rightarrow> int \<Rightarrow> int \<times> int" where
  "member_status_counts now participants inactivity_days =
     foldl (\<lambda>(active_count, inactive_count) v.
              if is_active now inactivity_days v then (active_count + 1, inactive_count)
              else (active_count, inactive_count + 1))
       (0, 0) (map snd participants)"

definition report_key :: "datetime \<Rightarrow> string \<times> final_stats \<Rightarrow> int \<times> int" where
  \<comment> \<open>the key of \<open>sorted\<close> in \<open>print_report\<close>\<close>
  "report_key now x =
     (if messages (snd x) \<ge> 1 \<and> contribution (snd x) \<ge> 1 \<and>
         (case last_msg (snd x) of None \<Rightarrow> False | Some l \<Rightarrow> timedelta_days now l \<le> 90)
      then 0 else 1,
      - messages (snd x))"

definition sorted_participants ::
  "datetime \<Rightarrow> (string \<times> final_stats) list \<Rightarrow> (string \<times> final_stats) list" where
  \<comment> \<open>\<open>sorted\<close> is stable, as \<open>sort_key\<close> is\<close>
  "sorted_participants now participants = sort_key (report_key now) participants"

definition report_status :: "datetime \<Rightarrow> final_stats \<Rightarrow> string" where
  "report_status now v =
     (if messages v \<ge> 1 \<and> contribution v \<ge> 1 \<and>
         (case last_msg v of None \<Rightarrow> False | Some l \<Rightarrow> timedelta_days now l \<le> 90)
      then ''Active'' else ''Inactive'')"

definition print_report ::
  "datetime \<Rightarrow> (string \<times> final_stats) list \<Rightarrow> (string \<times> int \<times> rat \<times> string) list" where
  \<comment> \<open>the rows printed, in order\<close>
  "print_report now participants =
     map (\<lambda>(sender, v). (sender, messages v, contribution v, report_status now v))
       (sorted_participants now participants)"

definition csv_status :: "datetime \<Rightarrow> final_stats \<Rightarrow> string" where
  "csv_status now v =
     (if messages v \<ge> 1 \<and> contribution v \<ge> 1 \<and>
         (case last_msg v of None \<Rightarrow> False | Some l \<Rightarrow> timedelta_days now l \<le> 90)
      then ''Active'' else ''Inactive'')"

definition export_csv ::
  "datetime \<Rightarrow> (string \<times> final_stats) list \<Rightarrow> (string \<times> int \<times> rat \<times> string) list" where
  \<comment> \<open>the rows written for the participants, in order\<close>
  "export_csv now participants =
     map (\<lambda>(sender, v). (sender, messages v, contribution v, csv_status now v)) participants"

definition pie_inactive :: "datetime \<Rightarrow> int \<Rightarrow> final_stats \<Rightarrow> bool" where
  \<comment> \<open>the condition of \<open>plot_activity_pie\<close>\<close>
  "pie_inactive now inactivity_days v =
     (messages v < 1 \<or> contribution v < 1 \<or>
      (case last_msg v of None \<Rightarrow> True | Some l \<Rightarrow> timedelta_days now l > inactivity_days))"

definition plot_activity_pie ::
  "datetime \<Rightarrow> (string \<times> final_stats) list \<Rightarrow> int \<Rightarrow> int \<times> int" where
  \<comment> \<open>the two counts given to the chart, active first\<close>
  "plot_activity_pie now participants inactivity_days =
     (let inactive_count =
            foldl (\<lambda>n v. if pie_inactive now inactivity_days v then n + 1 else n) 0
              (map snd participants);
          active_count = int (length participants) - inactive_count
      in (active_count, inactive_count))"

section \<open>The loop body as events\<close>

text \<open>
  The branch that the loop body takes on a stripped line, with the values it extracts
  from the line, and the effect of each branch on the state.
\<close>

datatype event =
  MemberAddedEvent string
  | MemberJoinedEvent string
  | MessageEvent datetime string string
  | Unrecognized

definition classify :: "string \<Rightarrow> event" where
  "classify line =
     (case ADDED_PATTERN line of
        Some (g1, g2) \<Rightarrow> MemberAddedEvent (strip g2)
      | None \<Rightarrow>
         (case JOINED_PATTERN line of
            Some g1 \<Rightarrow> MemberJoinedEvent (strip g1)
          | None \<Rightarrow>
             (case LINE_PATTERN line of
                None \<Rightarrow> Unrecognized
              | Some (date_str, sender, msg) \<Rightarrow>
                 (case parse_date date_str of
                    None \<Rightarrow> Unrecognized
                  | Some dt \<Rightarrow> MessageEvent dt sender msg))))"

fun ingest :: "participants \<times> int \<Rightarrow> event \<Rightarrow> participants \<times> int" where
  "ingest (participants, total_messages) (MemberAddedEvent added_member) =
     (touch added_member participants, total_messages)"
| "ingest (participants, total_messages) (MemberJoinedEvent joined_member) =
     (touch joined_member participants, total_messages)"
| "ingest (participants, total_messages) Unrecognized = (participants, total_messages)"
| "ingest (participants, total_messages) (MessageEvent dt sender msg) =
     (let ps1 = modify sender (\<lambda>v. v\<lparr>messages := messages v + 1\<rparr>) participants;
          total1 = total_messages + 1;
          ps2 = (case last_msg (getitem ps1 sender) of
                   None \<Rightarrow> modify sender (\<lambda>v. v\<lparr>last_msg := Some dt\<rparr>) ps1
                 | Some l \<Rightarrow>
                     if dt_gt dt l
                     then modify sender (\<lambda>v. v\<lparr>last_msg := Some dt\<rparr>) ps1
                     else ps1)
      in (ps2, total1))"

fun message_times :: "string \<Rightarrow> string list \<Rightarrow> datetime list" where
  \<comment> \<open>the timestamps of the messages of a sender, in the order of the lines\<close>
  "message_times k [] = []"
| "message_times k (raw # lines) =
     (case classify (strip raw) of
        MessageEvent dt sender msg \<Rightarrow>
          if sender = k then dt # message_times k lines else message_times k lines
      | _ \<Rightarrow> message_times k lines)"

definition total_of :: "(string \<times> 'a stats_scheme) list \<Rightarrow> int" where
  \<comment> \<open>the sum of \<open>messages\<close> over the records\<close>
  "total_of ps = sum_list (map (\<lambda>x. messages (snd x)) ps)"

definition state_inv :: "participants \<times> int \<Rightarrow> bool" where
  \<comment> \<open>the keys of the dictionary are distinct, and the counts add up to the total\<close>
  "state_inv st = (distinct (map fst (fst st)) \<and> total_of (fst st) = snd st)"

definition latest :: "datetime option \<Rightarrow> datetime \<Rightarrow> datetime option" where
  \<comment> \<open>the later of a last message, if any, and a timestamp\<close>
  "latest a t = (case a of None \<Rightarrow> Some t | Some l \<Rightarrow> if dt_gt t l then Some t else Some l)"

section \<open>Properties of the status\<close>

lemma counts_foldl:
  "foldl (\<lambda>(a, i) v. if P v then (a + 1, i) else (a, i + 1)) (a0, i0) vs =
     (a0 + int (length (filter P vs)), i0 + int (length (filter (\<lambda>v. \<not> P v) vs)))"
  by (induction vs arbitrary: a0 i0) auto

lemma count_foldl:
  "foldl (\<lambda>n v. if Q v then n + 1 else n) (n0 :: int) vs = n0 + int (length (filter Q vs))"
  by (induction vs arbitrary: n0) auto

lemma member_status_counts_eq:
  "member_status_counts now ps d =
     (int (length (filter (is_active now d) (map snd ps))),
      int (length (filter (\<lambda>v. \<not> is_active now d v) (map snd ps))))"
  unfolding member_status_counts_def by (simp add: counts_foldl)

lemma pie_inactive_iff: "pie_inactive now d v = (\<not> is_active now d v)"
  by (auto simp: pie_inactive_def is_active_def split: option.splits)

lemma plot_activity_pie_eq:
  "plot_activity_pie now ps d = member_status_counts now ps d"
proof -
  have "length (filter (is_active now d) (map snd ps))
          + length (filter (\<lambda>v. \<not> is_active now d v) (map snd ps)) = length (map snd ps)"
    by (rule sum_length_filter_compl)
  then have "int (length ps) - int (length (filter (\<lambda>v. \<not> is_active now d v) (map snd ps)))
               = int (length (filter (is_active now d) (map snd ps)))"
    by simp
  then show ?thesis
    unfolding plot_activity_pie_def member_status_counts_eq
    by (simp add: count_foldl pie_inactive_iff Let_def)
qed

text \<open>
  Claim C1.  The condition of \<open>member_status_counts\<close> holds for a record exactly when it
  has at least one message, a contribution of at least 1, a last message, and that last
  message is at most \<open>inactivity_days\<close> whole days before \<open>now\<close>; the function counts
  the records with the condition as active and the others as inactive.  A record with 5
  messages, a contribution of 0.5 and a last message one day old is inactive, and so is a
  record with no message, whatever \<open>now\<close> and the threshold are.
\<close>

theorem status_classification:
  "is_active now inactivity_days v =
     (messages v \<ge> 1 \<and> contribution v \<ge> 1 \<and>
      (\<exists>l. last_msg v = Some l \<and> timedelta_days now l \<le> inactivity_days)) \<and>
   member_status_counts now ps inactivity_days =
     (int (length (filter (is_active now inactivity_days) (map snd ps))),
      int (length (filter (\<lambda>v. \<not> is_active now inactivity_days v) (map snd ps)))) \<and>
   (messages v = 5 \<and> contribution v = 1 / 2 \<and> last_msg v = Some l \<and>
      timedelta_days now l = 1 \<longrightarrow> \<not> is_active now 90 v) \<and>
   (messages v = 0 \<longrightarrow> \<not> is_active now inactivity_days v)"
  by (auto simp: is_active_def member_status_counts_eq split: option.splits)

theorem status_classification_witness:
  "messages \<lparr>messages = 5, last_msg = Some \<lparr>year = 2024, month = 2, day = 29, hour = 9, minute = 30,
        second = 0, microsecond = 0\<rparr>, contribution = 1 / 2\<rparr> = 5 \<and>
   timedelta_days \<lparr>year = 2024, month = 3, day = 1, hour = 10, minute = 0, second = 0, microsecond = 0\<rparr>
      \<lparr>year = 2024, month = 2, day = 29, hour = 9, minute = 30, second = 0, microsecond = 0\<rparr> = 1 \<and>
   \<not> is_active \<lparr>year = 2024, month = 3, day = 1, hour = 10, minute = 0, second = 0, microsecond = 0\<rparr> 90
      \<lparr>messages = 5, last_msg = Some \<lparr>year = 2024, month = 2, day = 29, hour = 9, minute = 30,
        second = 0, microsecond = 0\<rparr>, contribution = 1 / 2\<rparr> \<and>
   \<not> is_active \<lparr>year = 2024, month = 3, day = 1, hour = 10, minute = 0, second = 0, microsecond = 0\<rparr> 90
      \<lparr>messages = 0, last_msg = None, contribution = 0\<rparr>"
proof -
  have d: "timedelta_days \<lparr>year = 2024, month = 3, day = 1, hour = 10, minute = 0, second = 0, microsecond = 0\<rparr>
      \<lparr>year = 2024, month = 2, day = 29, hour = 9, minute = 30, second = 0, microsecond = 0\<rparr> = 1"
    by (simp add: timedelta_days_def toordinal_def ymd2ord_def days_before_year_def
        days_before_month_def is_leap_def)
  show ?thesis
    using d
      status_classification [of
        "\<lparr>year = 2024, month = 3, day = 1, hour = 10, minute = 0, second = 0, microsecond = 0\<rparr>" 90
        "\<lparr>messages = 5, last_msg = Some \<lparr>year = 2024, month = 2, day = 29, hour = 9, minute = 30,
          second = 0, microsecond = 0\<rparr>, contribution = 1 / 2\<rparr>" "[]"
        "\<lparr>year = 2024, month = 2, day = 29, hour = 9, minute = 30, second = 0, microsecond = 0\<rparr>"]
      status_classification [of
        "\<lparr>year = 2024, month = 3, day = 1, hour = 10, minute = 0, second = 0, microsecond = 0\<rparr>" 90
        "\<lparr>messages = 0, last_msg = None, contribution = 0\<rparr>" "[]"
        "\<lparr>year = 2024, month = 2, day = 29, hour = 9, minute = 30, second = 0, microsecond = 0\<rparr>"]
    by simp
qed

text \<open>
  Claim C10.  For the same \<open>now\<close> and the threshold of 90 days, the status of a row of
  the report, the key of the report's order, the status of a row of the export, the
  condition of the chart (negated) and the condition of \<open>member_status_counts\<close> agree on
  every record, and the chart gets the counts of \<open>member_status_counts\<close>.
\<close>

theorem status_sites_agree:
  "(report_status now v = ''Active'') = is_active now 90 v \<and>
   (report_status now v = ''Inactive'') = (\<not> is_active now 90 v) \<and>
   (csv_status now v = ''Active'') = is_active now 90 v \<and>
   (csv_status now v = ''Inactive'') = (\<not> is_active now 90 v) \<and>
   (fst (report_key now (name, v)) = 0) = is_active now 90 v \<and>
   pie_inactive now 90 v = (\<not> is_active now 90 v) \<and>
   plot_activity_pie now ps 90 = member_status_counts now ps 90"
  by (simp add: report_status_def csv_status_def report_key_def is_active_def
      pie_inactive_iff plot_activity_pie_eq)

section \<open>Properties of the loop\<close>

lemma process_line_ingest: "process_line st raw = ingest st (classify (strip raw))"
  by (cases st) (simp add: classify_def Let_def split: option.splits prod.splits)

declare process_line.simps [simp del]

lemma map_fst_modify: "map fst (modify k f ps) = map fst (touch k ps)"
  by (simp add: modify_def case_prod_unfold comp_def if_distrib cong: if_cong)

lemma touch_idem: "touch k (touch k ps) = touch k ps"
  by (simp add: touch_def split: option.splits)

lemma map_of_touch_other: "k' \<noteq> k \<Longrightarrow> map_of (touch k ps) k' = map_of ps k'"
  by (auto simp add: touch_def map_add_def split: option.splits)

lemma map_of_touch_same: "map_of (touch k ps) k = Some (getitem ps k)"
  by (auto simp add: touch_def getitem_def map_add_def split: option.splits)

lemma distinct_touch: "distinct (map fst ps) \<Longrightarrow> distinct (map fst (touch k ps))"
  by (auto simp: touch_def map_of_eq_None_iff split: option.splits)

lemma map_of_map_upd:
  "map_of (map (\<lambda>(k', v). if k' = k then (k', f v) else (k', v)) ps) k' =
     (if k' = k then map_option f (map_of ps k') else map_of ps k')"
  by (induction ps) auto

lemma map_of_modify:
  "map_of (modify k f ps) k' = (if k' = k then Some (f (getitem ps k)) else map_of ps k')"
  by (simp add: modify_def map_of_map_upd map_of_touch_same map_of_touch_other)

lemma getitem_modify:
  "getitem (modify k f ps) k' = (if k' = k then f (getitem ps k) else getitem ps k')"
  by (simp add: getitem_def map_of_modify)

lemma getitem_touch: "getitem (touch k ps) k' = getitem ps k'"
proof -
  have a: "k' = k \<Longrightarrow> ?thesis"
    using map_of_touch_same[of k ps] by (simp add: getitem_def)
  have b: "k' \<noteq> k \<Longrightarrow> ?thesis"
    using map_of_touch_other[of k' k ps] by (simp add: getitem_def)
  from a b show ?thesis by blast
qed

lemma total_of_Nil: "total_of [] = 0"
  by (simp add: total_of_def)

lemma total_of_Cons: "total_of (p # ps) = messages (snd p) + total_of ps"
  by (simp add: total_of_def)

lemma total_of_append: "total_of (ps @ qs) = total_of ps + total_of qs"
  by (simp add: total_of_def)

lemma total_of_touch: "total_of (touch k ps) = total_of ps"
  by (simp add: touch_def default_stats_def total_of_append total_of_Cons total_of_Nil
      split: option.splits)

lemma map_upd_absent:
  "k \<notin> fst ` set ps \<Longrightarrow>
   map (\<lambda>(k', v). if k' = k then (k', f v) else (k', v)) ps = ps"
  by (induction ps) auto

lemma total_of_upd_inc:
  "distinct (map fst ps) \<Longrightarrow> k \<in> fst ` set ps \<Longrightarrow>
   total_of (map (\<lambda>(k', v). if k' = k then (k', v\<lparr>messages := messages v + 1\<rparr>) else (k', v)) ps)
     = total_of ps + 1"
proof (induction ps)
  case Nil
  then show ?case by simp
next
  case (Cons p ps)
  have a: "fst p = k \<Longrightarrow> ?case"
  proof -
    assume e: "fst p = k"
    with Cons.prems have "k \<notin> fst ` set ps" by auto
    then have "map (\<lambda>(k', v). if k' = k then (k', v\<lparr>messages := messages v + 1\<rparr>) else (k', v)) ps = ps"
      by (rule map_upd_absent)
    then show ?case using e by (simp add: total_of_Cons case_prod_unfold)
  qed
  have b: "fst p \<noteq> k \<Longrightarrow> ?case"
    using Cons by (auto simp: total_of_Cons case_prod_unfold)
  from a b show ?case by blast
qed

lemma total_of_upd_last:
  "total_of (map (\<lambda>(k', v). if k' = k then (k', v\<lparr>last_msg := l\<rparr>) else (k', v)) ps)
     = total_of ps"
  by (induction ps) (auto simp: total_of_Cons total_of_Nil)

lemma touch_has_key: "k \<in> fst ` set (touch k ps)"
  using map_of_touch_same[of k ps] by (metis map_of_eq_None_iff option.distinct(1))

lemma total_of_modify_inc:
  "distinct (map fst ps) \<Longrightarrow>
   total_of (modify k (\<lambda>v. v\<lparr>messages := messages v + 1\<rparr>) ps) = total_of ps + 1"
  unfolding modify_def
  using total_of_upd_inc[OF distinct_touch touch_has_key, of ps k] by (simp add: total_of_touch)

lemma total_of_modify_last:
  "total_of (modify k (\<lambda>v. v\<lparr>last_msg := l\<rparr>) ps) = total_of ps"
  unfolding modify_def by (simp add: total_of_upd_last total_of_touch)

lemma distinct_modify: "distinct (map fst ps) \<Longrightarrow> distinct (map fst (modify k f ps))"
  by (simp add: map_fst_modify distinct_touch)

lemma inv_ingest: "state_inv st \<Longrightarrow> state_inv (ingest st e)"
  by (cases st; cases e)
     (auto simp: state_inv_def Let_def distinct_touch total_of_touch distinct_modify total_of_modify_inc
        total_of_modify_last split: option.splits)

lemma inv_process_line: "state_inv st \<Longrightarrow> state_inv (process_line st raw)"
  by (simp add: process_line_ingest inv_ingest)

lemma inv_foldl: "state_inv st \<Longrightarrow> state_inv (foldl process_line st lines)"
  by (induction lines arbitrary: st) (auto simp: inv_process_line)

lemma inv_ingest_lines: "state_inv (ingest_lines lines)"
  unfolding ingest_lines_def by (rule inv_foldl) (simp add: state_inv_def total_of_Nil)

lemma total_of_finalize: "total_of (fst (finalize st)) = total_of (fst st)"
  by (cases st) (simp add: total_of_def comp_def case_prod_unfold)

text \<open>
  Claim C2.  For every list of lines, the counts of the records add up to
  \<open>total_messages\<close>: after the loop, in what \<open>analyze_chat\<close> returns, and after
  every prefix of the lines.
\<close>

theorem messages_sum_total:
  "total_of (fst (ingest_lines lines)) = snd (ingest_lines lines) \<and>
   total_of (fst (analyze_chat lines)) = snd (analyze_chat lines) \<and>
   (\<forall>n. total_of (fst (ingest_lines (take n lines))) = snd (ingest_lines (take n lines)))"
proof -
  have a: "total_of (fst (ingest_lines ls)) = snd (ingest_lines ls)" for ls
    using inv_ingest_lines[of ls] by (simp add: state_inv_def)
  have b: "snd (finalize st) = snd st" for st by (cases st) simp
  show ?thesis by (simp add: a b analyze_chat_def total_of_finalize)
qed


lemma ingest_member:
  "e = MemberAddedEvent name \<or> e = MemberJoinedEvent name \<Longrightarrow>
   ingest (ps, tot) e = (touch name ps, tot)"
  by auto

text \<open>
  Claim C9.  A line that takes the branch of an added or a joined member reads
  \<open>participants[name]\<close> and does nothing else: a missing record is appended with no
  message and no last message, a record that exists is left as it is, the other records
  and \<open>total_messages\<close> do not change, the keys stay distinct, and the same line a
  second time changes nothing.  The lines of the two examples take these branches, with
  Carol and Dave.
\<close>

theorem member_event_frame:
  "(classify (strip raw) = MemberAddedEvent name \<or> classify (strip raw) = MemberJoinedEvent name \<longrightarrow>
     process_line (ps, tot) raw = (touch name ps, tot) \<and>
     (map_of ps name = None \<longrightarrow> touch name ps = ps @ [(name, \<lparr>messages = 0, last_msg = None\<rparr>)]) \<and>
     (map_of ps name \<noteq> None \<longrightarrow> touch name ps = ps) \<and>
     (\<forall>k. k \<noteq> name \<longrightarrow> map_of (touch name ps) k = map_of ps k) \<and>
     (distinct (map fst ps) \<longrightarrow> distinct (map fst (touch name ps))) \<and>
     process_line (process_line (ps, tot) raw) raw = process_line (ps, tot) raw) \<and>
   classify (strip ''Bob added Carol'') = MemberAddedEvent ''Carol'' \<and>
   classify (strip (''Dave joined using this group'' @ [CHR 0x27] @ ''s invite link''))
     = MemberJoinedEvent ''Dave''"
proof -
  have ex1: "classify (strip ''Bob added Carol'') = MemberAddedEvent ''Carol''"
    by code_simp
  have ex2: "classify (strip (''Dave joined using this group'' @ [CHR 0x27] @ ''s invite link''))
     = MemberJoinedEvent ''Dave''"
    by code_simp
  have main: "process_line (ps, tot) raw = (touch name ps, tot) \<and>
     (map_of ps name = None \<longrightarrow> touch name ps = ps @ [(name, \<lparr>messages = 0, last_msg = None\<rparr>)]) \<and>
     (map_of ps name \<noteq> None \<longrightarrow> touch name ps = ps) \<and>
     (\<forall>k. k \<noteq> name \<longrightarrow> map_of (touch name ps) k = map_of ps k) \<and>
     (distinct (map fst ps) \<longrightarrow> distinct (map fst (touch name ps))) \<and>
     process_line (process_line (ps, tot) raw) raw = process_line (ps, tot) raw"
    if h: "classify (strip raw) = MemberAddedEvent name \<or> classify (strip raw) = MemberJoinedEvent name"
  proof -
    have p: "process_line (qs, tot) raw = (touch name qs, tot)" for qs
      unfolding process_line_ingest using h by (rule ingest_member)
    have t: "map_of ps name = None \<longrightarrow> touch name ps = ps @ [(name, \<lparr>messages = 0, last_msg = None\<rparr>)]"
      by (simp add: touch_def default_stats_def)
    have u: "map_of ps name \<noteq> None \<longrightarrow> touch name ps = ps"
      by (auto simp: touch_def)
    show ?thesis
      using t u by (simp add: p touch_idem map_of_touch_other distinct_touch)
  qed
  show ?thesis using main ex1 ex2 by blast
qed

theorem member_event_frame_witness:
  "classify (strip ''Bob added Carol'') = MemberAddedEvent ''Carol'' \<and>
   process_line ([(''Alice'', \<lparr>messages = 3, last_msg = None\<rparr>)], 3) ''Bob added Carol''
     = ([(''Alice'', \<lparr>messages = 3, last_msg = None\<rparr>), (''Carol'', \<lparr>messages = 0, last_msg = None\<rparr>)], 3) \<and>
   process_line ([(''Alice'', \<lparr>messages = 3, last_msg = None\<rparr>), (''Carol'', \<lparr>messages = 0, last_msg = None\<rparr>)], 3)
     ''Bob added Carol''
     = ([(''Alice'', \<lparr>messages = 3, last_msg = None\<rparr>), (''Carol'', \<lparr>messages = 0, last_msg = None\<rparr>)], 3)"
proof -
  have c: "classify (strip ''Bob added Carol'') = MemberAddedEvent ''Carol''"
    by code_simp
  have t: "touch ''Carol'' [(''Alice'', \<lparr>messages = 3, last_msg = None\<rparr>)]
    = [(''Alice'', \<lparr>messages = 3, last_msg = None\<rparr>), (''Carol'', \<lparr>messages = 0, last_msg = None\<rparr>)]"
    by (simp add: touch_def default_stats_def)
  note m = member_event_frame [of "''Bob added Carol''" "''Carol''"
        "[(''Alice'', \<lparr>messages = 3, last_msg = None\<rparr>)]" 3]
  from m c have p1: "process_line ([(''Alice'', \<lparr>messages = 3, last_msg = None\<rparr>)], 3) ''Bob added Carol''
      = (touch ''Carol'' [(''Alice'', \<lparr>messages = 3, last_msg = None\<rparr>)], 3)"
    by blast
  from m c have p2: "process_line (process_line ([(''Alice'', \<lparr>messages = 3, last_msg = None\<rparr>)], 3)
      ''Bob added Carol'') ''Bob added Carol''
      = process_line ([(''Alice'', \<lparr>messages = 3, last_msg = None\<rparr>)], 3) ''Bob added Carol''"
    by blast
  from p1 t have q1: "process_line ([(''Alice'', \<lparr>messages = 3, last_msg = None\<rparr>)], 3) ''Bob added Carol''
     = ([(''Alice'', \<lparr>messages = 3, last_msg = None\<rparr>), (''Carol'', \<lparr>messages = 0, last_msg = None\<rparr>)], 3)"
    by simp
  from p2 have q2: "process_line ([(''Alice'', \<lparr>messages = 3, last_msg = None\<rparr>), (''Carol'', \<lparr>messages = 0, last_msg = None\<rparr>)], 3)
     ''Bob added Carol''
     = ([(''Alice'', \<lparr>messages = 3, last_msg = None\<rparr>), (''Carol'', \<lparr>messages = 0, last_msg = None\<rparr>)], 3)"
    unfolding q1 .
  from c q1 q2 show ?thesis by blast
qed

section \<open>Properties of the last message\<close>

lemma getitem_ingest_message:
  "getitem (fst (ingest (ps, tot) (MessageEvent dt sender body))) k =
     (if k = sender
      then (getitem ps sender)\<lparr>messages := messages (getitem ps sender) + 1,
             last_msg := latest (last_msg (getitem ps sender)) dt\<rparr>
      else getitem ps k)"
  by (simp add: Let_def getitem_modify latest_def split: option.splits)

lemma snd_ingest_message: "snd (ingest (ps, tot) (MessageEvent dt sender body)) = tot + 1"
  by (simp add: Let_def)

lemma latest_cases:
  "latest a t = Some (case a of None \<Rightarrow> t | Some l \<Rightarrow> if dt_gt t l then t else l)"
  by (simp add: latest_def split: option.splits)

lemma latest_ge:
  "\<exists>m. latest a t = Some m \<and> dt_key t \<le> dt_key m \<and> (m = t \<or> a = Some m) \<and>
       (\<forall>l. a = Some l \<longrightarrow> dt_key l \<le> dt_key m)"
  by (auto simp: latest_def dt_gt_def split: option.splits)

lemma last_msg_ingest:
  "last_msg (getitem (fst (ingest st e)) k) =
     (case e of MessageEvent dt sender body \<Rightarrow>
        if sender = k then latest (last_msg (getitem (fst st) k)) dt
        else last_msg (getitem (fst st) k)
      | _ \<Rightarrow> last_msg (getitem (fst st) k))"
proof -
  obtain ps tot where st: "st = (ps, tot)" by (cases st)
  show ?thesis
  proof (cases e)
    case (MemberAddedEvent x1)
    then show ?thesis by (simp add: st getitem_touch)
  next
    case (MemberJoinedEvent x2)
    then show ?thesis by (simp add: st getitem_touch)
  next
    case (MessageEvent dt sender body)
    then show ?thesis by (simp add: st getitem_ingest_message del: ingest.simps)
  next
    case Unrecognized
    then show ?thesis by (simp add: st)
  qed
qed

lemma last_msg_foldl:
  "last_msg (getitem (fst (foldl process_line st lines)) k) =
     foldl latest (last_msg (getitem (fst st) k)) (message_times k lines)"
proof (induction lines arbitrary: st)
  case Nil
  then show ?case by simp
next
  case (Cons raw lines)
  have step: "last_msg (getitem (fst (process_line st raw)) k) =
     (case classify (strip raw) of MessageEvent dt sender body \<Rightarrow>
        if sender = k then latest (last_msg (getitem (fst st) k)) dt
        else last_msg (getitem (fst st) k)
      | _ \<Rightarrow> last_msg (getitem (fst st) k))"
    unfolding process_line_ingest by (rule last_msg_ingest)
  have "last_msg (getitem (fst (foldl process_line st (raw # lines))) k)
      = foldl latest (last_msg (getitem (fst (process_line st raw)) k)) (message_times k lines)"
    by (simp add: Cons.IH)
  then show ?case
    by (simp add: step split: event.splits)
qed

lemma foldl_latest_None: "foldl latest a ts = None \<longleftrightarrow> a = None \<and> ts = []"
proof (induction ts arbitrary: a)
  case Nil
  then show ?case by simp
next
  case (Cons t ts)
  from latest_ge[of a t] obtain m where "latest a t = Some m" by blast
  then show ?case by (simp add: Cons.IH)
qed

lemma foldl_latest_max:
  "foldl latest a ts = Some m \<Longrightarrow>
     (m \<in> set ts \<or> a = Some m) \<and> (\<forall>t \<in> set ts. dt_key t \<le> dt_key m) \<and>
     (\<forall>l. a = Some l \<longrightarrow> dt_key l \<le> dt_key m)"
proof (induction ts arbitrary: a)
  case Nil
  then show ?case by simp
next
  case (Cons t ts)
  from latest_ge[of a t] obtain r where r: "latest a t = Some r" "dt_key t \<le> dt_key r"
    "r = t \<or> a = Some r" "\<forall>l. a = Some l \<longrightarrow> dt_key l \<le> dt_key r" by blast
  from Cons.prems have "foldl latest (latest a t) ts = Some m" by simp
  from Cons.IH[OF this] r show ?case by (auto intro: order_trans)
qed


lemma map_of_finalize:
  "map_of (fst (finalize st)) k =
     map_option (\<lambda>v. \<lparr>messages = messages v, last_msg = last_msg v,
        contribution = contribution_of (messages v) (snd st)\<rparr>) (map_of (fst st) k)"
proof -
  obtain ps tot where st: "st = (ps, tot)" by (cases st)
  have "map_of (map (\<lambda>(sender, v). (sender, f v)) ps) k = map_option f (map_of ps k)" for f :: "stats \<Rightarrow> final_stats"
    by (induction ps) auto
  then show ?thesis by (simp add: st)
qed

text \<open>
  Claim C7.  A line that takes the branch of a message adds 1 to \<open>total_messages\<close> and
  to the count of the sender, sets the last message of the sender to the later of the one
  it had (if any) and the timestamp of the line, and leaves the other records alone.  No
  line moves a last message back.  After the loop, and in what \<open>analyze_chat\<close> returns,
  the last message of a participant is the greatest of the timestamps of their messages,
  and is absent when they sent none.
\<close>

theorem message_event_update:
  "(classify (strip raw) = MessageEvent dt sender body \<longrightarrow>
      snd (process_line (ps, tot) raw) = tot + 1 \<and>
      messages (getitem (fst (process_line (ps, tot) raw)) sender)
        = messages (getitem ps sender) + 1 \<and>
      last_msg (getitem (fst (process_line (ps, tot) raw)) sender)
        = Some (case last_msg (getitem ps sender) of None \<Rightarrow> dt
                | Some l \<Rightarrow> if dt_gt dt l then dt else l) \<and>
      (\<forall>k. k \<noteq> sender \<longrightarrow> getitem (fst (process_line (ps, tot) raw)) k = getitem ps k)) \<and>
   (\<forall>l. last_msg (getitem ps k) = Some l \<longrightarrow>
      (\<exists>l'. last_msg (getitem (fst (process_line (ps, tot) raw)) k) = Some l' \<and>
            dt_key l \<le> dt_key l')) \<and>
   (message_times k lines = [] \<longrightarrow> last_msg (getitem (fst (ingest_lines lines)) k) = None) \<and>
   (message_times k lines \<noteq> [] \<longrightarrow>
      (\<exists>m \<in> set (message_times k lines).
         last_msg (getitem (fst (ingest_lines lines)) k) = Some m \<and>
         (\<forall>t \<in> set (message_times k lines). dt_key t \<le> dt_key m))) \<and>
   (\<forall>v. map_of (fst (analyze_chat lines)) k = Some v \<longrightarrow>
      last_msg v = last_msg (getitem (fst (ingest_lines lines)) k))"
proof -
  have step: "snd (process_line (ps, tot) raw) = tot + 1 \<and>
      messages (getitem (fst (process_line (ps, tot) raw)) sender)
        = messages (getitem ps sender) + 1 \<and>
      last_msg (getitem (fst (process_line (ps, tot) raw)) sender)
        = Some (case last_msg (getitem ps sender) of None \<Rightarrow> dt
                | Some l \<Rightarrow> if dt_gt dt l then dt else l) \<and>
      (\<forall>k. k \<noteq> sender \<longrightarrow> getitem (fst (process_line (ps, tot) raw)) k = getitem ps k)"
    if h: "classify (strip raw) = MessageEvent dt sender body"
    unfolding process_line_ingest h
    by (simp add: getitem_ingest_message snd_ingest_message latest_cases del: ingest.simps)
  have mono: "\<exists>l'. last_msg (getitem (fst (process_line (ps, tot) raw)) k) = Some l' \<and>
            dt_key l \<le> dt_key l'"
    if h: "last_msg (getitem ps k) = Some l" for l
  proof -
    have e: "last_msg (getitem (fst (process_line (ps, tot) raw)) k) =
       (case classify (strip raw) of MessageEvent dt sender body \<Rightarrow>
          if sender = k then latest (Some l) dt else Some l
        | _ \<Rightarrow> Some l)"
      unfolding process_line_ingest last_msg_ingest by (simp add: h split: event.splits)
    show ?thesis
      unfolding e using latest_ge[of "Some l"]
      by (auto split: event.splits)
  qed
  have fin: "last_msg (getitem (fst (ingest_lines lines)) k) = foldl latest None (message_times k lines)"
    unfolding ingest_lines_def last_msg_foldl by (simp add: getitem_def default_stats_def)
  have none: "message_times k lines = [] \<longrightarrow> last_msg (getitem (fst (ingest_lines lines)) k) = None"
    by (simp add: fin)
  have some: "\<exists>m \<in> set (message_times k lines).
         last_msg (getitem (fst (ingest_lines lines)) k) = Some m \<and>
         (\<forall>t \<in> set (message_times k lines). dt_key t \<le> dt_key m)"
    if h: "message_times k lines \<noteq> []"
  proof -
    from h have "foldl latest None (message_times k lines) \<noteq> None"
      by (simp add: foldl_latest_None)
    then obtain m where m: "foldl latest None (message_times k lines) = Some m" by blast
    from foldl_latest_max[OF m] m show ?thesis by (auto simp: fin)
  qed
  have an: "last_msg v = last_msg (getitem (fst (ingest_lines lines)) k)"
    if h: "map_of (fst (analyze_chat lines)) k = Some v" for v
    using h by (auto simp: analyze_chat_def map_of_finalize getitem_def)
  from step mono none some an show ?thesis by blast
qed

theorem message_event_update_witness:
  "classify (strip ''12/5/23, 14:05 - Alice: hello'')
     = MessageEvent \<lparr>year = 2023, month = 5, day = 12, hour = 14, minute = 5, second = 0,
         microsecond = 0\<rparr> ''Alice'' ''hello'' \<and>
   snd (process_line ([], 0) ''12/5/23, 14:05 - Alice: hello'') = 1 \<and>
   messages (getitem (fst (process_line ([], 0) ''12/5/23, 14:05 - Alice: hello'')) ''Alice'') = 1 \<and>
   last_msg (getitem (fst (process_line ([], 0) ''12/5/23, 14:05 - Alice: hello'')) ''Alice'')
     = Some \<lparr>year = 2023, month = 5, day = 12, hour = 14, minute = 5, second = 0,
         microsecond = 0\<rparr>"
proof -
  have c: "classify (strip ''12/5/23, 14:05 - Alice: hello'')
     = MessageEvent \<lparr>year = 2023, month = 5, day = 12, hour = 14, minute = 5, second = 0,
         microsecond = 0\<rparr> ''Alice'' ''hello''"
    by code_simp
  have g: "getitem [] ''Alice'' = \<lparr>messages = 0, last_msg = None\<rparr>"
    by (simp add: getitem_def default_stats_def)
  note m = message_event_update [of "''12/5/23, 14:05 - Alice: hello''"
      "\<lparr>year = 2023, month = 5, day = 12, hour = 14, minute = 5, second = 0, microsecond = 0\<rparr>"
      "''Alice''" "''hello''" "[]" 0 "''Alice''" "[]"]
  from m c have "snd (process_line ([], 0) ''12/5/23, 14:05 - Alice: hello'') = 0 + 1 \<and>
      messages (getitem (fst (process_line ([], 0) ''12/5/23, 14:05 - Alice: hello'')) ''Alice'')
        = messages (getitem [] ''Alice'') + 1 \<and>
      last_msg (getitem (fst (process_line ([], 0) ''12/5/23, 14:05 - Alice: hello'')) ''Alice'')
        = Some (case last_msg (getitem [] ''Alice'') of None \<Rightarrow>
              \<lparr>year = 2023, month = 5, day = 12, hour = 14, minute = 5, second = 0, microsecond = 0\<rparr>
                | Some l \<Rightarrow> if dt_gt \<lparr>year = 2023, month = 5, day = 12, hour = 14, minute = 5, second = 0, microsecond = 0\<rparr> l then \<lparr>year = 2023, month = 5, day = 12, hour = 14, minute = 5, second = 0, microsecond = 0\<rparr> else l)"
    by blast
  then show ?thesis using c by (simp add: g)
qed

section \<open>Properties of the order of the report\<close>

lemma report_key_fst: "(fst (report_key now x) = 0) = is_active now 90 (snd x)"
  by (simp add: report_key_def is_active_def)

lemma report_key_fst': "fst (report_key now x) = (if is_active now 90 (snd x) then 0 else 1)"
  by (simp add: report_key_def is_active_def)

lemma report_key_snd: "snd (report_key now x) = - messages (snd x)"
  by (simp add: report_key_def)

lemma report_key_eq:
  "(report_key now x = report_key now y) =
     (is_active now 90 (snd x) = is_active now 90 (snd y) \<and> messages (snd x) = messages (snd y))"
  by (auto simp: prod_eq_iff report_key_fst' report_key_snd)

lemma report_key_le:
  "(report_key now x \<le> report_key now y) =
     ((is_active now 90 (snd x) \<and> \<not> is_active now 90 (snd y)) \<or>
      (is_active now 90 (snd x) = is_active now 90 (snd y) \<and> messages (snd y) \<le> messages (snd x)))"
  by (auto simp: less_eq_prod_def report_key_fst' report_key_snd)

text \<open>
  Claim C6.  The report lists the records in the order of \<open>sorted\<close>: a permutation of
  the dictionary's items in which no inactive record comes before an active one, records
  of the same status come by decreasing count, and records of the same status and count
  keep the order of the dictionary, which is the order of creation.  For A (active, 10),
  B (inactive, 50) and C (active, 10), created in this order, the report lists A, C, B.
\<close>

theorem report_order:
  "mset (sorted_participants now ps) = mset ps \<and>
   sorted (map (report_key now) (sorted_participants now ps)) \<and>
   (\<forall>i j. i < j \<and> j < length ps \<longrightarrow>
      (is_active now 90 (snd (sorted_participants now ps ! j))
         \<longrightarrow> is_active now 90 (snd (sorted_participants now ps ! i))) \<and>
      (is_active now 90 (snd (sorted_participants now ps ! i))
         = is_active now 90 (snd (sorted_participants now ps ! j))
         \<longrightarrow> messages (snd (sorted_participants now ps ! j))
               \<le> messages (snd (sorted_participants now ps ! i)))) \<and>
   (\<forall>a m. filter (\<lambda>x. is_active now 90 (snd x) = a \<and> messages (snd x) = m)
              (sorted_participants now ps)
          = filter (\<lambda>x. is_active now 90 (snd x) = a \<and> messages (snd x) = m) ps) \<and>
   print_report now ps =
     map (\<lambda>(sender, v). (sender, messages v, contribution v, report_status now v))
       (sorted_participants now ps) \<and>
   (is_active now 90 va \<and> messages va = 10 \<and> \<not> is_active now 90 vb \<and> messages vb = 50 \<and>
    is_active now 90 vc \<and> messages vc = 10 \<longrightarrow>
      sorted_participants now [(a, va), (b, vb), (c, vc)] = [(a, va), (c, vc), (b, vb)])"
proof -
  let ?r = "sorted_participants now ps"
  have p: "mset ?r = mset ps" by (simp add: sorted_participants_def)
  have s: "sorted (map (report_key now) ?r)" by (simp add: sorted_participants_def)
  have o: "(is_active now 90 (snd (?r ! j)) \<longrightarrow> is_active now 90 (snd (?r ! i))) \<and>
      (is_active now 90 (snd (?r ! i)) = is_active now 90 (snd (?r ! j))
         \<longrightarrow> messages (snd (?r ! j)) \<le> messages (snd (?r ! i)))"
    if h: "i < j \<and> j < length ps" for i j
  proof -
    from h have l: "i < j" "j < length (map (report_key now) ?r)"
      by (simp_all add: sorted_participants_def)
    from sorted_nth_mono[OF s _ l(2), of i] l have "report_key now (?r ! i) \<le> report_key now (?r ! j)"
      by simp
    then show ?thesis by (auto simp: report_key_le)
  qed
  have st: "filter (\<lambda>x. is_active now 90 (snd x) = a \<and> messages (snd x) = m) ?r
          = filter (\<lambda>x. is_active now 90 (snd x) = a \<and> messages (snd x) = m) ps" for a m
  proof -
    have k: "(\<lambda>x. is_active now 90 (snd x) = a \<and> messages (snd x) = m)
        = (\<lambda>x. report_key now x = (if a then 0 else 1, - m))"
      by (auto simp: prod_eq_iff report_key_fst' report_key_snd fun_eq_iff)
    show ?thesis unfolding k sorted_participants_def by (rule sort_key_stable)
  qed
  have pr: "print_report now ps =
     map (\<lambda>(sender, v). (sender, messages v, contribution v, report_status now v)) ?r"
    by (simp add: print_report_def)
  have ex: "sorted_participants now [(a, va), (b, vb), (c, vc)] = [(a, va), (c, vc), (b, vb)]"
    if h: "is_active now 90 va \<and> messages va = 10 \<and> \<not> is_active now 90 vb \<and> messages vb = 50 \<and>
    is_active now 90 vc \<and> messages vc = 10"
  proof -
    have ka: "report_key now (a, va) = (0, - 10)"
      using h by (simp add: prod_eq_iff report_key_fst' report_key_snd)
    have kb: "report_key now (b, vb) = (1, - 50)"
      using h by (simp add: prod_eq_iff report_key_fst' report_key_snd)
    have kc: "report_key now (c, vc) = (0, - 10)"
      using h by (simp add: prod_eq_iff report_key_fst' report_key_snd)
    show ?thesis
      by (simp add: sorted_participants_def ka kb kc less_eq_prod_def)
  qed
  from p s o st pr ex show ?thesis by blast
qed

theorem report_order_witness:
  "is_active \<lparr>year = 2024, month = 3, day = 1, hour = 10, minute = 0, second = 0, microsecond = 0\<rparr> 90
     \<lparr>messages = 10, last_msg = Some \<lparr>year = 2024, month = 2, day = 29, hour = 9, minute = 30,
        second = 0, microsecond = 0\<rparr>, contribution = 14\<rparr> \<and>
   \<not> is_active \<lparr>year = 2024, month = 3, day = 1, hour = 10, minute = 0, second = 0, microsecond = 0\<rparr> 90
     \<lparr>messages = 50, last_msg = Some \<lparr>year = 2023, month = 2, day = 28, hour = 9, minute = 30,
        second = 0, microsecond = 0\<rparr>, contribution = 72\<rparr> \<and>
   sorted_participants \<lparr>year = 2024, month = 3, day = 1, hour = 10, minute = 0, second = 0, microsecond = 0\<rparr>
     [(''A'', \<lparr>messages = 10, last_msg = Some \<lparr>year = 2024, month = 2, day = 29, hour = 9, minute = 30,
        second = 0, microsecond = 0\<rparr>, contribution = 14\<rparr>),
      (''B'', \<lparr>messages = 50, last_msg = Some \<lparr>year = 2023, month = 2, day = 28, hour = 9, minute = 30,
        second = 0, microsecond = 0\<rparr>, contribution = 72\<rparr>),
      (''C'', \<lparr>messages = 10, last_msg = Some \<lparr>year = 2024, month = 2, day = 29, hour = 9, minute = 30,
        second = 0, microsecond = 0\<rparr>, contribution = 14\<rparr>)]
   = [(''A'', \<lparr>messages = 10, last_msg = Some \<lparr>year = 2024, month = 2, day = 29, hour = 9, minute = 30,
        second = 0, microsecond = 0\<rparr>, contribution = 14\<rparr>),
      (''C'', \<lparr>messages = 10, last_msg = Some \<lparr>year = 2024, month = 2, day = 29, hour = 9, minute = 30,
        second = 0, microsecond = 0\<rparr>, contribution = 14\<rparr>),
      (''B'', \<lparr>messages = 50, last_msg = Some \<lparr>year = 2023, month = 2, day = 28, hour = 9, minute = 30,
        second = 0, microsecond = 0\<rparr>, contribution = 72\<rparr>)]"
proof -
  let ?now = "\<lparr>year = 2024, month = 3, day = 1, hour = 10, minute = 0, second = 0, microsecond = 0\<rparr>"
  let ?va = "\<lparr>messages = 10, last_msg = Some \<lparr>year = 2024, month = 2, day = 29, hour = 9, minute = 30,
        second = 0, microsecond = 0\<rparr>, contribution = 14\<rparr>"
  let ?vb = "\<lparr>messages = 50, last_msg = Some \<lparr>year = 2023, month = 2, day = 28, hour = 9, minute = 30,
        second = 0, microsecond = 0\<rparr>, contribution = 72\<rparr>"
  have a: "is_active ?now 90 ?va"
    by (simp add: is_active_def timedelta_days_def toordinal_def ymd2ord_def days_before_year_def
        days_before_month_def is_leap_def)
  have b: "\<not> is_active ?now 90 ?vb"
    by (simp add: is_active_def timedelta_days_def toordinal_def ymd2ord_def days_before_year_def
        days_before_month_def is_leap_def)
  note m = report_order [of ?now "[]" ?va ?vb ?va "''A''" "''B''" "''C''"]
  from m a b have "sorted_participants ?now [(''A'', ?va), (''B'', ?vb), (''C'', ?va)]
     = [(''A'', ?va), (''C'', ?va), (''B'', ?vb)]"
    by simp
  with a b show ?thesis by blast
qed

section \<open>Properties of the parsing of dates\<close>

lemma try_formats_Some:
  "(try_formats s fs = Some d) =
     (\<exists>i < length fs. strptime s (fs ! i) = Some d \<and> (\<forall>j < i. strptime s (fs ! j) = None))"
proof (induction fs)
  case Nil
  then show ?case by simp
next
  case (Cons f fs)
  have a: "strptime s f = None \<Longrightarrow> ?case"
  proof -
    assume n: "strptime s f = None"
    have "(\<exists>i < length (f # fs). strptime s ((f # fs) ! i) = Some d \<and> (\<forall>j < i. strptime s ((f # fs) ! j) = None))
       = (\<exists>i < length fs. strptime s (fs ! i) = Some d \<and> (\<forall>j < i. strptime s (fs ! j) = None))"
      (is "?l = ?r")
    proof
      assume ?l
      then obtain i where i: "i < length (f # fs)" "strptime s ((f # fs) ! i) = Some d"
        "\<forall>j < i. strptime s ((f # fs) ! j) = None" by blast
      from i(2) n obtain i' where i': "i = Suc i'" by (cases i) auto
      from i i' have "i' < length fs \<and> strptime s (fs ! i') = Some d \<and> (\<forall>j < i'. strptime s (fs ! j) = None)"
        by auto
      then show ?r by blast
    next
      assume ?r
      then obtain i where i: "i < length fs" "strptime s (fs ! i) = Some d"
        "\<forall>j < i. strptime s (fs ! j) = None" by blast
      have "\<forall>j < Suc i. strptime s ((f # fs) ! j) = None"
        using i(3) n by (auto simp: less_Suc_eq_0_disj)
      with i have "Suc i < length (f # fs) \<and> strptime s ((f # fs) ! Suc i) = Some d \<and>
         (\<forall>j < Suc i. strptime s ((f # fs) ! j) = None)" by simp
      then show ?l by blast
    qed
    with n Cons.IH show ?case by simp
  qed
  have b: "strptime s f = Some e \<Longrightarrow> ?case" for e
  proof -
    assume e: "strptime s f = Some e"
    have "(\<exists>i < length (f # fs). strptime s ((f # fs) ! i) = Some d \<and> (\<forall>j < i. strptime s ((f # fs) ! j) = None))
       = (e = d)" (is "?l = _")
    proof
      assume ?l
      then obtain i where i: "i < length (f # fs)" "strptime s ((f # fs) ! i) = Some d"
        "\<forall>j < i. strptime s ((f # fs) ! j) = None" by blast
      have "i = 0"
      proof (rule ccontr)
        assume "i \<noteq> 0"
        then have "0 < i" by simp
        with i(3) have "strptime s ((f # fs) ! 0) = None" by blast
        with e show False by simp
      qed
      with i(2) e show "e = d" by simp
    next
      assume "e = d"
      with e have "0 < length (f # fs) \<and> strptime s ((f # fs) ! 0) = Some d \<and>
          (\<forall>j < 0. strptime s ((f # fs) ! j) = None)" by simp
      then show ?l by blast
    qed
    with e show ?case by simp
  qed
  have "strptime s f = None \<or> (\<exists>e. strptime s f = Some e)" by auto
  with a b show ?case by blast
qed

lemma try_formats_None:
  "(try_formats s fs = None) = (\<forall>i < length fs. strptime s (fs ! i) = None)"
proof (induction fs)
  case Nil
  then show ?case by simp
next
  case (Cons f fs)
  show ?case
    by (auto simp: Cons.IH less_Suc_eq_0_disj split: option.splits)
qed


text \<open>
  Claim C4.  The line \<open>12/5/23, 14:05 - Alice: hello\<close> matches neither the added nor
  the joined pattern, matches the message pattern with the sender Alice and the body
  hello, and its date does not parse with the first format (day, month, year of four
  digits, 24 hours) and parses with the second (day, month, year of two digits, 24
  hours) to 12 May 2023, 14:05: the line takes the branch of a message.
\<close>

theorem example_message_line:
  "ADDED_PATTERN (strip ''12/5/23, 14:05 - Alice: hello'') = None \<and>
   JOINED_PATTERN (strip ''12/5/23, 14:05 - Alice: hello'') = None \<and>
   LINE_PATTERN (strip ''12/5/23, 14:05 - Alice: hello'')
     = Some (''12/5/23, 14:05'', ''Alice'', ''hello'') \<and>
   strptime ''12/5/23, 14:05'' ''%d/%m/%Y, %H:%M'' = None \<and>
   strptime ''12/5/23, 14:05'' ''%d/%m/%y, %H:%M''
     = Some \<lparr>year = 2023, month = 5, day = 12, hour = 14, minute = 5, second = 0,
         microsecond = 0\<rparr> \<and>
   parse_date ''12/5/23, 14:05''
     = Some \<lparr>year = 2023, month = 5, day = 12, hour = 14, minute = 5, second = 0,
         microsecond = 0\<rparr> \<and>
   classify (strip ''12/5/23, 14:05 - Alice: hello'')
     = MessageEvent \<lparr>year = 2023, month = 5, day = 12, hour = 14, minute = 5, second = 0,
         microsecond = 0\<rparr> ''Alice'' ''hello''"
proof -
  have a: "ADDED_PATTERN (strip ''12/5/23, 14:05 - Alice: hello'') = None"
    by code_simp
  have j: "JOINED_PATTERN (strip ''12/5/23, 14:05 - Alice: hello'') = None"
    by code_simp
  have l: "LINE_PATTERN (strip ''12/5/23, 14:05 - Alice: hello'')
     = Some (''12/5/23, 14:05'', ''Alice'', ''hello'')"
    by code_simp
  have f1: "strptime ''12/5/23, 14:05'' ''%d/%m/%Y, %H:%M'' = None"
    by code_simp
  have f2: "strptime ''12/5/23, 14:05'' ''%d/%m/%y, %H:%M''
     = Some \<lparr>year = 2023, month = 5, day = 12, hour = 14, minute = 5, second = 0,
         microsecond = 0\<rparr>"
    by code_simp
  have p: "parse_date ''12/5/23, 14:05''
     = Some \<lparr>year = 2023, month = 5, day = 12, hour = 14, minute = 5, second = 0,
         microsecond = 0\<rparr>"
    by (simp add: parse_date_def formats_def f1 f2)
  have c: "classify (strip ''12/5/23, 14:05 - Alice: hello'')
     = MessageEvent \<lparr>year = 2023, month = 5, day = 12, hour = 14, minute = 5, second = 0,
         microsecond = 0\<rparr> ''Alice'' ''hello''"
    by (simp add: classify_def a j l p)
  from a j l f1 f2 p c show ?thesis by blast
qed


lemma strptime_whole:
  "strptime s f = Some d \<Longrightarrow> \<exists>found. first (match_items (pattern f) s) = Some (found, [])"
  by (auto simp: strptime_def split: option.splits if_splits)

text \<open>
  Claim C5, as the code has it.  \<open>parse_date\<close> tries the four formats in their order
  and returns the result of the first that parses; a format parses only when its match
  leaves nothing of the text behind.  The added and the joined patterns are tried before
  the message pattern: when none of the formats parses, a line that has the shape of a
  message and matches neither of these two patterns is skipped, the state is left as it
  is.  Four dates show the four formats, and a meridiem with no space before it parses
  with none.
\<close>

theorem parse_date_formats:
  "formats = [''%d/%m/%Y, %H:%M'', ''%d/%m/%y, %H:%M'', ''%m/%d/%Y, %I:%M %p'',
              ''%m/%d/%y, %I:%M %p''] \<and>
   (parse_date s = Some d) =
     (\<exists>i < 4. strptime s (formats ! i) = Some d \<and> (\<forall>j < i. strptime s (formats ! j) = None)) \<and>
   (parse_date s = None) = (\<forall>i < 4. strptime s (formats ! i) = None) \<and>
   (strptime s f = Some d \<longrightarrow>
      (\<exists>found. first (match_items (pattern f) s) = Some (found, []))) \<and>
   (ADDED_PATTERN (strip raw) = None \<and> JOINED_PATTERN (strip raw) = None \<and>
    LINE_PATTERN (strip raw) = Some (date_str, sender, msg) \<and> parse_date date_str = None \<longrightarrow>
      classify (strip raw) = Unrecognized \<and> process_line st raw = st) \<and>
   parse_date ''25/12/2023, 14:05''
     = Some \<lparr>year = 2023, month = 12, day = 25, hour = 14, minute = 5, second = 0,
         microsecond = 0\<rparr> \<and>
   parse_date ''25/12/23, 14:05''
     = Some \<lparr>year = 2023, month = 12, day = 25, hour = 14, minute = 5, second = 0,
         microsecond = 0\<rparr> \<and>
   parse_date ''12/25/2023, 2:05 PM''
     = Some \<lparr>year = 2023, month = 12, day = 25, hour = 14, minute = 5, second = 0,
         microsecond = 0\<rparr> \<and>
   parse_date ''12/25/23, 2:05 pm''
     = Some \<lparr>year = 2023, month = 12, day = 25, hour = 14, minute = 5, second = 0,
         microsecond = 0\<rparr> \<and>
   parse_date ''12/5/2023, 2:05pm'' = None"
proof -
  have l: "length formats = 4" by (simp add: formats_def)
  have f: "formats = [''%d/%m/%Y, %H:%M'', ''%d/%m/%y, %H:%M'', ''%m/%d/%Y, %I:%M %p'',
              ''%m/%d/%y, %I:%M %p'']"
    by (simp add: formats_def)
  have a: "(parse_date s = Some d) =
     (\<exists>i < 4. strptime s (formats ! i) = Some d \<and> (\<forall>j < i. strptime s (formats ! j) = None))"
    unfolding parse_date_def try_formats_Some l ..
  have b: "(parse_date s = None) = (\<forall>i < 4. strptime s (formats ! i) = None)"
    unfolding parse_date_def try_formats_None l ..
  have c: "strptime s f = Some d \<longrightarrow>
      (\<exists>found. first (match_items (pattern f) s) = Some (found, []))"
    using strptime_whole by blast
  have sk: "classify (strip raw) = Unrecognized \<and> process_line st raw = st"
    if h: "ADDED_PATTERN (strip raw) = None \<and> JOINED_PATTERN (strip raw) = None \<and>
    LINE_PATTERN (strip raw) = Some (date_str, sender, msg) \<and> parse_date date_str = None"
  proof -
    from h have u: "classify (strip raw) = Unrecognized" by (simp add: classify_def)
    obtain ps tot where st: "st = (ps, tot)" by (cases st)
    show ?thesis unfolding process_line_ingest u st by simp
  qed
  have e1: "parse_date ''25/12/2023, 14:05''
     = Some \<lparr>year = 2023, month = 12, day = 25, hour = 14, minute = 5, second = 0,
         microsecond = 0\<rparr>"
    by code_simp
  have e2: "parse_date ''25/12/23, 14:05''
     = Some \<lparr>year = 2023, month = 12, day = 25, hour = 14, minute = 5, second = 0,
         microsecond = 0\<rparr>"
    by code_simp
  have e3: "parse_date ''12/25/2023, 2:05 PM''
     = Some \<lparr>year = 2023, month = 12, day = 25, hour = 14, minute = 5, second = 0,
         microsecond = 0\<rparr>"
    by code_simp
  have e4: "parse_date ''12/25/23, 2:05 pm''
     = Some \<lparr>year = 2023, month = 12, day = 25, hour = 14, minute = 5, second = 0,
         microsecond = 0\<rparr>"
    by code_simp
  have e5: "parse_date ''12/5/2023, 2:05pm'' = None"
    by code_simp
  from f a b c sk e1 e2 e3 e4 e5 show ?thesis by blast
qed

theorem parse_date_formats_witness:
  "ADDED_PATTERN (strip ''12/5/2023, 2:05pm - Alice: hi'') = None \<and>
   JOINED_PATTERN (strip ''12/5/2023, 2:05pm - Alice: hi'') = None \<and>
   LINE_PATTERN (strip ''12/5/2023, 2:05pm - Alice: hi'')
     = Some (''12/5/2023, 2:05pm'', ''Alice'', ''hi'') \<and>
   parse_date ''12/5/2023, 2:05pm'' = None \<and>
   process_line ([(''Alice'', \<lparr>messages = 3, last_msg = None\<rparr>)], 3) ''12/5/2023, 2:05pm - Alice: hi''
     = ([(''Alice'', \<lparr>messages = 3, last_msg = None\<rparr>)], 3)"
proof -
  have a: "ADDED_PATTERN (strip ''12/5/2023, 2:05pm - Alice: hi'') = None"
    by code_simp
  have j: "JOINED_PATTERN (strip ''12/5/2023, 2:05pm - Alice: hi'') = None"
    by code_simp
  have l: "LINE_PATTERN (strip ''12/5/2023, 2:05pm - Alice: hi'')
     = Some (''12/5/2023, 2:05pm'', ''Alice'', ''hi'')"
    by code_simp
  have p: "parse_date ''12/5/2023, 2:05pm'' = None"
    by code_simp
  note m = parse_date_formats [of "''12/5/2023, 2:05pm''"
      "\<lparr>year = 2023, month = 5, day = 12, hour = 14, minute = 5, second = 0, microsecond = 0\<rparr>"
      "''%d/%m/%Y, %H:%M''" "''12/5/2023, 2:05pm - Alice: hi''" "''12/5/2023, 2:05pm''"
      "''Alice''" "''hi''" "([(''Alice'', \<lparr>messages = 3, last_msg = None\<rparr>)], 3)"]
  from m a j l p have "process_line ([(''Alice'', \<lparr>messages = 3, last_msg = None\<rparr>)], 3)
     ''12/5/2023, 2:05pm - Alice: hi'' = ([(''Alice'', \<lparr>messages = 3, last_msg = None\<rparr>)], 3)"
    by blast
  with a j l p show ?thesis by blast
qed

text \<open>
  Claim C5, as it is stated, fails on \<open>99/99/99, 99:99 - A: B added C\<close>: the line has
  the shape of a message and none of the formats parses its date, but it matches the
  added pattern first, and a record is created for C.
\<close>

theorem parse_date_skip_counterexample:
  "LINE_PATTERN (strip ''99/99/99, 99:99 - A: B added C'')
     = Some (''99/99/99, 99:99'', ''A'', ''B added C'') \<and>
   parse_date ''99/99/99, 99:99'' = None \<and>
   process_line ([], 0) ''99/99/99, 99:99 - A: B added C''
     = ([(''C'', \<lparr>messages = 0, last_msg = None\<rparr>)], 0) \<and>
   process_line ([], 0) ''99/99/99, 99:99 - A: B added C'' \<noteq> ([], 0)"
proof -
  have a: "LINE_PATTERN (strip ''99/99/99, 99:99 - A: B added C'')
     = Some (''99/99/99, 99:99'', ''A'', ''B added C'')"
    by code_simp
  have b: "parse_date ''99/99/99, 99:99'' = None"
    by code_simp
  have c: "process_line ([], 0) ''99/99/99, 99:99 - A: B added C''
     = ([(''C'', \<lparr>messages = 0, last_msg = None\<rparr>)], 0)"
    by code_simp
  from a b c show ?thesis by simp
qed

section \<open>Properties of the added pattern\<close>

lemma runs_all:
  "\<forall>c \<in> set s. P c \<Longrightarrow> runs P s = map (\<lambda>n. (take n s, drop n s)) [0..<Suc (length s)]"
proof (induction s)
  case Nil
  then show ?case by simp
next
  case (Cons c cs)
  then have ih: "runs P cs = map (\<lambda>n. (take n cs, drop n cs)) [0..<Suc (length cs)]" by simp
  have u1: "[0..<Suc (Suc (length cs))] = 0 # [Suc 0..<Suc (Suc (length cs))]"
    by (rule upt_conv_Cons) simp
  have u2: "map Suc [0..<Suc (length cs)] = [Suc 0..<Suc (Suc (length cs))]"
    by (rule map_Suc_upt)
  have u: "[0..<Suc (length (c # cs))] = 0 # map Suc [0..<Suc (length cs)]"
    unfolding u2 using u1 by simp
  from Cons.prems have "P c" by simp
  then show ?case unfolding u by (simp add: ih del: upt_Suc)
qed

lemma first_bind_skip:
  "\<forall>p \<in> set pre. f p = [] \<Longrightarrow> first (List.bind (pre @ x # post) f) = first (f x @ List.bind post f)"
  by (induction pre) (auto simp: List.bind_def)

lemma first_append_Some: "first xs = Some y \<Longrightarrow> first (xs @ ys) = Some y"
  by (cases xs) (auto simp: first_def)

lemma star_greedy_all:
  "\<forall>c \<in> set s. P c \<Longrightarrow>
   star_greedy P s = map (\<lambda>n. (take n s, drop n s)) (rev [0..<Suc (length s)])"
  by (simp add: star_greedy_def runs_all rev_map del: upt_Suc)

lemma star_greedy_hd:
  "\<forall>c \<in> set s. P c \<Longrightarrow> \<exists>rest. star_greedy P s = (s, []) # rest"
  by (simp add: star_greedy_all)

lemma rev_upt_split:
  "k \<le> m \<Longrightarrow> rev [0..<Suc m] = rev [Suc k..<Suc m] @ k # rev [0..<k]"
proof -
  assume h: "k \<le> m"
  have "[0..<k + (Suc m - k)] = [0..<k] @ [k..<k + (Suc m - k)]"
    by (rule upt_add_eq_append) simp
  with h have a: "[0..<Suc m] = [0..<k] @ [k..<Suc m]" by simp
  from h have b: "[k..<Suc m] = k # [Suc k..<Suc m]"
    by (intro upt_conv_Cons) simp
  show ?thesis unfolding a b by simp
qed


lemma lit_append: "lit p (p @ r) = [r]"
  by (simp add: lit_def)

lemma lit_nonempty: "lit p s \<noteq> [] \<Longrightarrow> s = p @ drop (length p) s"
  by (simp add: lit_def split: if_splits) (metis append_take_drop_id)

lemma ADDED_PATTERN_last:
  assumes nl: "\<forall>c \<in> set line. notnl c"
    and eq: "line = a @ '' added '' @ n"
    and mx: "\<forall>a' n'. line = a' @ '' added '' @ n' \<longrightarrow> length a' \<le> length a"
  shows "ADDED_PATTERN line = Some (a, n)"
proof -
  define K :: "string \<times> string \<Rightarrow> (string \<times> string) list" where
    "K = (\<lambda>(g1, r1). List.bind (lit '' added '' r1) (\<lambda>r2.
            List.bind (star_greedy notnl r2) (\<lambda>(g2, r3). if dollar r3 then [(g1, g2)] else [])))"
  define sp where "sp = (\<lambda>j. (take j line, drop j line))"
  have A: "ADDED_PATTERN line = first (List.bind (star_greedy notnl line) K)"
    by (simp add: ADDED_PATTERN_def K_def)
  have k: "length a \<le> length line" using eq by simp
  have S: "star_greedy notnl line =
      map sp (rev [Suc (length a)..<Suc (length line)]) @ sp (length a) # map sp (rev [0..<length a])"
    unfolding star_greedy_all[OF nl] rev_upt_split[OF k] sp_def by simp
  have pre: "\<forall>p \<in> set (map sp (rev [Suc (length a)..<Suc (length line)])). K p = []"
  proof
    fix p assume "p \<in> set (map sp (rev [Suc (length a)..<Suc (length line)]))"
    then have "p \<in> sp ` {Suc (length a)..<Suc (length line)}"
      by (simp del: upt_Suc)
    then obtain j where j: "length a < j" "j \<le> length line" "p = sp j"
      by (auto simp: less_Suc_eq_le Suc_le_eq)
    have "lit '' added '' (drop j line) = []"
    proof (rule ccontr)
      assume "lit '' added '' (drop j line) \<noteq> []"
      from lit_nonempty[OF this]
      have "line = take j line @ '' added '' @ drop (length '' added '') (drop j line)"
        by (metis append_take_drop_id)
      with mx have "length (take j line) \<le> length a" by blast
      with j show False by simp
    qed
    then show "K p = []" by (simp add: K_def j(3) sp_def)
  qed
  from nl eq have "\<forall>c \<in> set n. notnl c" by simp
  from star_greedy_hd[OF this] obtain rest where r: "star_greedy notnl n = (n, []) # rest" by blast
  have x: "sp (length a) = (a, '' added '' @ n)" by (simp add: sp_def eq)
  have "K (a, '' added '' @ n) =
      List.bind (star_greedy notnl n) (\<lambda>(g2, r3). if dollar r3 then [(a, g2)] else [])"
    unfolding K_def prod.case lit_append by simp
  then have "first (K (sp (length a))) = Some (a, n)"
    unfolding x by (simp add: r dollar_def first_def)
  then have "first (K (sp (length a)) @ List.bind (map sp (rev [0..<length a])) K) = Some (a, n)"
    by (rule first_append_Some)
  then show ?thesis unfolding A S first_bind_skip[OF pre] .
qed


lemma last_occurrence:
  assumes "line = x @ p @ y"
  shows "\<exists>a n. line = a @ p @ n \<and> (\<forall>a' n'. line = a' @ p @ n' \<longrightarrow> length a' \<le> length a)"
proof -
  define S where "S = {k. \<exists>a' n'. line = a' @ p @ n' \<and> length a' = k}"
  have ne: "S \<noteq> {}" using assms by (auto simp: S_def)
  have "S \<subseteq> {..length line}" by (auto simp: S_def)
  then have fin: "finite S" by (rule finite_subset) simp
  from Max_in[OF fin ne] obtain a n where an: "line = a @ p @ n" "length a = Max S"
    by (auto simp: S_def)
  have "length a' \<le> length a" if "line = a' @ p @ n'" for a' n'
  proof -
    from that have "length a' \<in> S" by (auto simp: S_def)
    from Max_ge[OF fin this] an(2) show ?thesis by simp
  qed
  with an(1) show ?thesis by blast
qed

text \<open>
  Claim C3, as the code has it.  A stripped line with no line feed in it (a line of the
  file has none) that holds \<open> added \<close> matches the added pattern, which is tried first:
  the line takes the branch of an added member also when it has the shape of a message.
  The first group is greedy, so the member is what follows the last \<open> added \<close> of the
  line, with the white space around it removed.
\<close>

theorem added_pattern_last:
  "(CHR 0x0A \<notin> set (strip raw) \<and> strip raw = x @ '' added '' @ y \<longrightarrow>
      (\<exists>a n. strip raw = a @ '' added '' @ n \<and>
         (\<forall>a' n'. strip raw = a' @ '' added '' @ n' \<longrightarrow> length a' \<le> length a) \<and>
         ADDED_PATTERN (strip raw) = Some (a, n) \<and>
         classify (strip raw) = MemberAddedEvent (strip n) \<and>
         process_line (ps, tot) raw = (touch (strip n) ps, tot))) \<and>
   classify (strip ''12/5/23, 14:05 - Alice: Bob added Carol'') = MemberAddedEvent ''Carol'' \<and>
   LINE_PATTERN (strip ''12/5/23, 14:05 - Alice: Bob added Carol'')
     = Some (''12/5/23, 14:05'', ''Alice'', ''Bob added Carol'') \<and>
   classify (strip ''A added B added C'') = MemberAddedEvent ''C'' \<and>
   classify (strip ''Bob added   Carol'') = MemberAddedEvent ''Carol''"
proof -
  have main: "\<exists>a n. strip raw = a @ '' added '' @ n \<and>
         (\<forall>a' n'. strip raw = a' @ '' added '' @ n' \<longrightarrow> length a' \<le> length a) \<and>
         ADDED_PATTERN (strip raw) = Some (a, n) \<and>
         classify (strip raw) = MemberAddedEvent (strip n) \<and>
         process_line (ps, tot) raw = (touch (strip n) ps, tot)"
    if h: "CHR 0x0A \<notin> set (strip raw) \<and> strip raw = x @ '' added '' @ y"
  proof -
    from h have nl: "\<forall>c \<in> set (strip raw). notnl c" by (auto simp: notnl_def)
    from h last_occurrence[of "strip raw" x "'' added ''" y]
    obtain a n where an: "strip raw = a @ '' added '' @ n"
      "\<forall>a' n'. strip raw = a' @ '' added '' @ n' \<longrightarrow> length a' \<le> length a"
      by blast
    from ADDED_PATTERN_last[OF nl an] have A: "ADDED_PATTERN (strip raw) = Some (a, n)" .
    then have c: "classify (strip raw) = MemberAddedEvent (strip n)"
      by (simp add: classify_def)
    have p: "process_line (ps, tot) raw = (touch (strip n) ps, tot)"
      unfolding process_line_ingest c by simp
    from an A c p show ?thesis by blast
  qed
  have e1: "classify (strip ''12/5/23, 14:05 - Alice: Bob added Carol'') = MemberAddedEvent ''Carol''"
    by code_simp
  have e2: "LINE_PATTERN (strip ''12/5/23, 14:05 - Alice: Bob added Carol'')
     = Some (''12/5/23, 14:05'', ''Alice'', ''Bob added Carol'')"
    by code_simp
  have e3: "classify (strip ''A added B added C'') = MemberAddedEvent ''C''"
    by code_simp
  have e4: "classify (strip ''Bob added   Carol'') = MemberAddedEvent ''Carol''"
    by code_simp
  from main e1 e2 e3 e4 show ?thesis by blast
qed

theorem added_pattern_last_witness:
  "CHR 0x0A \<notin> set (strip ''A added B added C'') \<and>
   strip ''A added B added C'' = ''A'' @ '' added '' @ ''B added C'' \<and>
   (\<exists>a n. strip ''A added B added C'' = a @ '' added '' @ n \<and>
      ADDED_PATTERN (strip ''A added B added C'') = Some (a, n) \<and>
      classify (strip ''A added B added C'') = MemberAddedEvent (strip n) \<and>
      process_line ([], 0) ''A added B added C'' = (touch (strip n) [], 0))"
proof -
  have s: "strip ''A added B added C'' = ''A added B added C''"
    by code_simp
  have a: "CHR 0x0A \<notin> set (strip ''A added B added C'')"
    unfolding s by simp
  have b: "strip ''A added B added C'' = ''A'' @ '' added '' @ ''B added C''"
    unfolding s by simp
  note m = added_pattern_last [of "''A added B added C''" "''A''" "''B added C''" "[]" 0]
  from m a b have "\<exists>a n. strip ''A added B added C'' = a @ '' added '' @ n \<and>
      ADDED_PATTERN (strip ''A added B added C'') = Some (a, n) \<and>
      classify (strip ''A added B added C'') = MemberAddedEvent (strip n) \<and>
      process_line ([], 0) ''A added B added C'' = (touch (strip n) [], 0)"
    by blast
  with a b show ?thesis by blast
qed

text \<open>
  Claim C3, as it is stated, fails on \<open>A added B added C\<close>: the member is C, not what
  follows the first \<open> added \<close>.
\<close>

theorem added_pattern_first_counterexample:
  "classify (strip ''A added B added C'') = MemberAddedEvent ''C'' \<and>
   classify (strip ''A added B added C'') \<noteq> MemberAddedEvent ''B added C''"
proof -
  have "classify (strip ''A added B added C'') = MemberAddedEvent ''C''"
    by code_simp
  then show ?thesis by simp
qed

section \<open>Properties of the floating point operations\<close>

lemma pow2_power_int: "pow2 e = power_int 2 e"
  by (simp add: pow2_def power_int_def power_one_over inverse_eq_divide)

lemma pow2_pos: "0 < pow2 e"
  by (simp add: pow2_power_int)

lemma pow2_add: "pow2 (a + b) = pow2 a * pow2 b"
  by (simp add: pow2_power_int power_int_add)

lemma pow2_mono: "a \<le> b \<Longrightarrow> pow2 a \<le> pow2 b"
  by (simp add: pow2_power_int power_int_increasing)

lemma pow2_less_cancel:
  assumes h: "pow2 a < pow2 b"
  shows "a < b"
proof (rule ccontr)
  assume n: "\<not> a < b"
  from n have "b \<le> a" by simp
  from pow2_mono[OF this] h show False by simp
qed

lemma pow2_nat: "0 \<le> e \<Longrightarrow> pow2 e = 2 ^ nat e"
  by (simp add: pow2_def)

lemma rhe_error: "\<bar>of_int (rhe q) - q\<bar> \<le> 1 / 2"
proof -
  define f where "f = \<lfloor>q\<rfloor>"
  define r where "r = q - of_int f"
  have r01: "0 \<le> r" "r < 1" unfolding r_def f_def by linarith+
  have q: "q = of_int f + r" by (simp add: r_def)
  have v: "rhe q = (if r < 1 / 2 then f else if 1 / 2 < r then f + 1
                    else if even f then f else f + 1)"
    by (simp add: rhe_def Let_def f_def r_def)
  have lo: "rhe q = f \<Longrightarrow> r \<le> 1 / 2 \<Longrightarrow> ?thesis"
    using r01 by (simp add: q)
  have hi: "rhe q = f + 1 \<Longrightarrow> 1 / 2 \<le> r \<Longrightarrow> ?thesis"
    using r01 by (simp add: q)
  consider "r < 1 / 2" | "1 / 2 < r" | "r = 1 / 2" by linarith
  then show ?thesis
  proof cases
    case 1
    then show ?thesis using lo v by simp
  next
    case 2
    then show ?thesis using hi v by simp
  next
    case 3
    then have "rhe q = f \<or> rhe q = f + 1" using v by simp
    with 3 lo hi show ?thesis by auto
  qed
qed

lemma ilog2_le:
  assumes "0 < q"
  shows "pow2 (ilog2 q) \<le> q"
proof -
  obtain a b where ab: "quotient_of q = (a, b)" by fastforce
  from quotient_of_denom_pos[OF ab] have b: "0 < b" .
  from quotient_of_div[OF ab] have q: "q = of_int a / of_int b" .
  with assms b have a: "0 < a" by (simp add: zero_less_divide_iff)
  from bitlen_bounds[OF a] have la: "2 ^ nat (bitlen a - 1) \<le> a" by simp
  from bitlen_bounds[OF b] have lb: "b < 2 ^ nat (bitlen b)" by simp
  from a have la1: "1 \<le> bitlen a" by (simp add: bitlen_alt_def)
  have pa: "pow2 (bitlen a - 1) \<le> of_int a"
  proof -
    have "(of_int (2 ^ nat (bitlen a - 1)) :: rat) \<le> of_int a" using la by (simp only: of_int_le_iff)
    then show ?thesis using la1 by (simp add: pow2_nat)
  qed
  have pb: "of_int b \<le> pow2 (bitlen b)"
  proof -
    have "(of_int b :: rat) \<le> of_int (2 ^ nat (bitlen b))" using lb by (simp only: of_int_le_iff less_imp_le)
    then show ?thesis using bitlen_nonneg[of b] by (simp add: pow2_nat)
  qed
  have "pow2 (bitlen a - bitlen b - 1) * of_int b \<le> pow2 (bitlen a - bitlen b - 1) * pow2 (bitlen b)"
    using pb pow2_pos by (simp add: mult_left_mono less_imp_le)
  also have "\<dots> = pow2 (bitlen a - 1)" by (simp add: pow2_add[symmetric])
  also have "\<dots> \<le> of_int a" by (rule pa)
  finally have "pow2 (bitlen a - bitlen b - 1) \<le> q" using b by (simp add: q pos_le_divide_eq)
  then show ?thesis by (simp add: ilog2_def ab Let_def)
qed


lemma ilog2_less: "0 < q \<Longrightarrow> q < pow2 k \<Longrightarrow> ilog2 q < k"
  using ilog2_le[of q] pow2_less_cancel[of "ilog2 q" k] by simp

lemma ilog2_gt:
  assumes "0 < q"
  shows "q < pow2 (ilog2 q + 1)"
proof -
  obtain a b where ab: "quotient_of q = (a, b)" by fastforce
  from quotient_of_denom_pos[OF ab] have b: "0 < b" .
  from quotient_of_div[OF ab] have q: "q = of_int a / of_int b" .
  with assms b have a: "0 < a" by (simp add: zero_less_divide_iff)
  from bitlen_bounds[OF a] have la: "a < 2 ^ nat (bitlen a)" by simp
  from bitlen_bounds[OF b] have lb: "2 ^ nat (bitlen b - 1) \<le> b" by simp
  from b have lb1: "1 \<le> bitlen b" by (simp add: bitlen_alt_def)
  have pa: "of_int a < pow2 (bitlen a)"
  proof -
    have "(of_int a :: rat) < of_int (2 ^ nat (bitlen a))" using la by (simp only: of_int_less_iff)
    then show ?thesis using bitlen_nonneg[of a] by (simp add: pow2_nat)
  qed
  have pb: "pow2 (bitlen b - 1) \<le> of_int b"
  proof -
    have "(of_int (2 ^ nat (bitlen b - 1)) :: rat) \<le> of_int b" using lb by (simp only: of_int_le_iff)
    then show ?thesis using lb1 by (simp add: pow2_nat)
  qed
  have "of_int a < pow2 (bitlen a)" by (rule pa)
  also have "\<dots> = pow2 (bitlen a - bitlen b + 1) * pow2 (bitlen b - 1)"
    by (simp add: pow2_add[symmetric])
  also have "\<dots> \<le> pow2 (bitlen a - bitlen b + 1) * of_int b"
    using pb pow2_pos by (simp add: mult_left_mono less_imp_le)
  finally have u: "q < pow2 (bitlen a - bitlen b + 1)" using b by (simp add: q pos_divide_less_eq)
  have "\<not> pow2 (bitlen a - bitlen b) \<le> q \<Longrightarrow> q < pow2 (bitlen a - bitlen b)" by simp
  with u show ?thesis by (auto simp: ilog2_def ab Let_def)
qed

lemma fl_error:
  assumes "\<bar>q\<bar> < pow2 k" and "- 1021 \<le> k"
  shows "\<bar>fl q - q\<bar> \<le> pow2 (k - 54)"
proof -
  have z: "q = 0 \<Longrightarrow> ?thesis" using pow2_pos[of "k - 54"] by (simp add: fl_def)
  have nz: "q \<noteq> 0 \<Longrightarrow> ?thesis"
  proof -
    assume n: "q \<noteq> 0"
    define e where "e = max (ilog2 \<bar>q\<bar>) (- 1022)"
    define u where "u = pow2 (e - 52)"
    have f: "fl q = of_int (rhe (q / u)) * u"
      using n by (simp add: fl_def Let_def e_def u_def)
    from n assms(1) have "ilog2 \<bar>q\<bar> < k" by (intro ilog2_less) simp_all
    with assms(2) have "e \<le> k - 1" by (simp add: e_def)
    then have "e - 52 \<le> k - 53" by simp
    from pow2_mono[OF this] have ub: "u \<le> pow2 (k - 53)" by (simp add: u_def)
    have up: "0 < u" by (simp add: u_def pow2_pos)
    have "fl q - q = (of_int (rhe (q / u)) - q / u) * u"
      using up by (simp add: f algebra_simps)
    then have "\<bar>fl q - q\<bar> = \<bar>of_int (rhe (q / u)) - q / u\<bar> * u"
      using up by (simp add: abs_mult)
    also have "\<dots> \<le> 1 / 2 * u"
      using rhe_error[of "q / u"] up by (intro mult_right_mono) simp_all
    also have "\<dots> \<le> 1 / 2 * pow2 (k - 53)" using ub by simp
    also have "\<dots> = pow2 (k - 54)"
    proof -
      have "pow2 (k - 53) = pow2 (k - 54 + 1)" by simp
      also have "\<dots> = pow2 (k - 54) * 2" unfolding pow2_add by (simp add: pow2_def)
      finally show ?thesis by simp
    qed
    finally show ?thesis .
  qed
  from z nz show ?thesis by blast
qed

lemma contribution_error:
  assumes m: "0 \<le> m" "m \<le> t" and t: "0 < t"
  shows "\<bar>py_round (float_mul (truediv m t) 100) 2 - 100 * of_int m / of_int t\<bar>
           \<le> 1 / 200 + 1 / 2 ^ 45"
proof -
  define q where "q = (of_int m / of_int t :: rat)"
  define x where "x = truediv m t"
  define y where "y = float_mul x 100"
  define w where "w = (of_int (rhe (y * 100)) / 100 :: rat)"
  define c where "c = py_round y 2"
  have q01: "0 \<le> q" "q \<le> 1" using m t by (simp_all add: q_def)
  have p1: "pow2 1 = 2" and p7: "pow2 7 = 128" by (simp_all add: pow2_def)
  have pm53: "pow2 (- 53) = 1 / 2 ^ 53" and pm47: "pow2 (- 47) = 1 / 2 ^ 47"
    by (simp_all add: pow2_def)
  have "\<bar>q\<bar> < pow2 1" using q01 by (simp add: p1)
  from fl_error[OF this] have ex: "\<bar>x - q\<bar> \<le> 1 / 2 ^ 53"
    by (simp add: x_def truediv_def q_def pm53)
  have s53: "(1 :: rat) / 2 ^ 53 \<le> 1 / 100" and s47: "(1 :: rat) / 2 ^ 47 \<le> 1 / 100" by simp_all
  from ex s53 q01 have xb: "\<bar>x\<bar> \<le> 1 + 1 / 100" by linarith
  then have "\<bar>x * 100\<bar> < pow2 7" unfolding p7 by linarith
  from fl_error[OF this] have ey: "\<bar>y - x * 100\<bar> \<le> 1 / 2 ^ 47"
    by (simp add: y_def float_mul_def pm47)
  from ey s47 xb have yb: "\<bar>y\<bar> \<le> 102" by linarith
  have "\<bar>of_int (rhe (y * 100)) - y * 100\<bar> \<le> 1 / 2" by (rule rhe_error)
  then have ew: "\<bar>w - y\<bar> \<le> 1 / 200" unfolding w_def by linarith
  with yb have "\<bar>w\<bar> < pow2 7" unfolding p7 by linarith
  from fl_error[OF this] have ec: "\<bar>c - w\<bar> \<le> 1 / 2 ^ 47"
    by (simp add: c_def py_round_def w_def pm47)
  define d where "d = (1 / 2 ^ 47 + 1 / 200 + 1 / 2 ^ 47 + 100 * (1 / 2 ^ 53) :: rat)"
  from ec ew ey ex have "c - 100 * q \<le> d \<and> - (c - 100 * q) \<le> d"
    unfolding abs_le_iff d_def by linarith
  then have "\<bar>c - 100 * q\<bar> \<le> d" unfolding abs_le_iff .
  also have "d \<le> 1 / 200 + 1 / 2 ^ 45" unfolding d_def by simp
  finally show ?thesis by (simp add: c_def y_def x_def q_def)
qed

lemma contribution_steps:
  assumes m: "0 \<le> m" "m \<le> t" and t: "0 < t"
  shows "(\<exists>n. py_round (float_mul (truediv m t) 100) 2 = fl (of_int n / 100) \<and>
            \<bar>of_int n / 100 - float_mul (truediv m t) 100\<bar> \<le> 1 / 200 \<and>
            \<bar>py_round (float_mul (truediv m t) 100) 2 - of_int n / 100\<bar> \<le> 1 / 2 ^ 47) \<and>
         \<bar>float_mul (truediv m t) 100 - 100 * of_int m / of_int t\<bar> \<le> 1 / 2 ^ 45"
proof -
  define q where "q = (of_int m / of_int t :: rat)"
  define x where "x = truediv m t"
  define y where "y = float_mul x 100"
  define n where "n = rhe (y * 100)"
  define w where "w = (of_int n / 100 :: rat)"
  have q01: "0 \<le> q" "q \<le> 1" using m t by (simp_all add: q_def)
  have p1: "pow2 1 = 2" and p7: "pow2 7 = 128" by (simp_all add: pow2_def)
  have pm53: "pow2 (- 53) = 1 / 2 ^ 53" and pm47: "pow2 (- 47) = 1 / 2 ^ 47"
    by (simp_all add: pow2_def)
  have "\<bar>q\<bar> < pow2 1" using q01 by (simp add: p1)
  from fl_error[OF this] have ex: "\<bar>x - q\<bar> \<le> 1 / 2 ^ 53"
    by (simp add: x_def truediv_def q_def pm53)
  have s53: "(1 :: rat) / 2 ^ 53 \<le> 1 / 100" and s47: "(1 :: rat) / 2 ^ 47 \<le> 1 / 100" by simp_all
  from ex s53 q01 have xb: "\<bar>x\<bar> \<le> 1 + 1 / 100" by linarith
  then have "\<bar>x * 100\<bar> < pow2 7" unfolding p7 by linarith
  from fl_error[OF this] have ey: "\<bar>y - x * 100\<bar> \<le> 1 / 2 ^ 47"
    by (simp add: y_def float_mul_def pm47)
  from ey s47 xb have yb: "\<bar>y\<bar> \<le> 102" by linarith
  have "\<bar>of_int (rhe (y * 100)) - y * 100\<bar> \<le> 1 / 2" by (rule rhe_error)
  then have ew: "\<bar>w - y\<bar> \<le> 1 / 200" unfolding w_def n_def by linarith
  with yb have "\<bar>w\<bar> < pow2 7" unfolding p7 by linarith
  from fl_error[OF this] have ec: "\<bar>fl w - w\<bar> \<le> 1 / 2 ^ 47"
    by (simp add: pm47)
  have c: "py_round y 2 = fl w" by (simp add: py_round_def w_def n_def)
  define d where "d = (1 / 2 ^ 47 + 100 * (1 / 2 ^ 53) :: rat)"
  from ey ex have "y - 100 * q \<le> d \<and> - (y - 100 * q) \<le> d"
    unfolding abs_le_iff d_def by linarith
  then have "\<bar>y - 100 * q\<bar> \<le> d" unfolding abs_le_iff .
  also have "d \<le> 1 / 2 ^ 45" unfolding d_def by simp
  finally have ep: "\<bar>y - 100 * q\<bar> \<le> 1 / 2 ^ 45" .
  from c ew ec have "py_round y 2 = fl (of_int n / 100) \<and> \<bar>of_int n / 100 - y\<bar> \<le> 1 / 200 \<and>
      \<bar>py_round y 2 - of_int n / 100\<bar> \<le> 1 / 2 ^ 47"
    by (simp add: w_def)
  then have "\<exists>n. py_round y 2 = fl (of_int n / 100) \<and> \<bar>of_int n / 100 - y\<bar> \<le> 1 / 200 \<and>
      \<bar>py_round y 2 - of_int n / 100\<bar> \<le> 1 / 2 ^ 47" by blast
  with ep show ?thesis by (simp add: y_def x_def q_def)
qed

section \<open>Properties of the contribution\<close>

lemma snd_finalize: "snd (finalize st) = snd st"
  by (cases st) simp

lemma contribution_finalize:
  "(n, v) \<in> set (fst (finalize st)) \<Longrightarrow> contribution v = contribution_of (messages v) (snd st)"
  by (cases st) auto

lemma nonneg_touch:
  "\<forall>x \<in> set ps. 0 \<le> messages (snd x) \<Longrightarrow> \<forall>x \<in> set (touch k ps). 0 \<le> messages (snd x)"
  by (auto simp: touch_def default_stats_def split: option.splits)

lemma nonneg_modify:
  "\<forall>v. 0 \<le> messages v \<longrightarrow> 0 \<le> messages (f v) \<Longrightarrow>
   \<forall>x \<in> set ps. 0 \<le> messages (snd x) \<Longrightarrow>
   \<forall>x \<in> set (modify k f ps). 0 \<le> messages (snd x)"
  using nonneg_touch[of ps k] unfolding modify_def by auto

lemma nonneg_ingest:
  assumes "\<forall>x \<in> set (fst st). 0 \<le> messages (snd x)"
  shows "\<forall>x \<in> set (fst (ingest st e)). 0 \<le> messages (snd x)"
proof -
  obtain ps tot where st: "st = (ps, tot)" by (cases st)
  from assms have p: "\<forall>x \<in> set ps. 0 \<le> messages (snd x)" by (simp add: st)
  show ?thesis
  proof (cases e)
    case (MemberAddedEvent x1)
    then show ?thesis using nonneg_touch[OF p] by (simp add: st)
  next
    case (MemberJoinedEvent x2)
    then show ?thesis using nonneg_touch[OF p] by (simp add: st)
  next
    case (MessageEvent dt sender body)
    have a: "\<forall>x \<in> set (modify sender (\<lambda>v. v\<lparr>messages := messages v + 1\<rparr>) ps). 0 \<le> messages (snd x)"
      by (rule nonneg_modify[OF _ p]) simp
    have b: "\<forall>x \<in> set (modify sender (\<lambda>v. v\<lparr>last_msg := Some dt\<rparr>)
        (modify sender (\<lambda>v. v\<lparr>messages := messages v + 1\<rparr>) ps)). 0 \<le> messages (snd x)"
      by (rule nonneg_modify[OF _ a]) simp
    from a b show ?thesis
      unfolding MessageEvent st by (simp add: Let_def split: option.splits)
  next
    case Unrecognized
    then show ?thesis using p by (simp add: st)
  qed
qed

lemma nonneg_foldl:
  "\<forall>x \<in> set (fst st). 0 \<le> messages (snd x) \<Longrightarrow>
   \<forall>x \<in> set (fst (foldl process_line st lines)). 0 \<le> messages (snd x)"
proof (induction lines arbitrary: st)
  case Nil
  then show ?case by simp
next
  case (Cons raw lines)
  from nonneg_ingest[OF Cons.prems]
  have "\<forall>x \<in> set (fst (process_line st raw)). 0 \<le> messages (snd x)"
    unfolding process_line_ingest .
  from Cons.IH[OF this] show ?case by simp
qed

lemma nonneg_ingest_lines: "\<forall>x \<in> set (fst (ingest_lines lines)). 0 \<le> messages (snd x)"
  unfolding ingest_lines_def by (rule nonneg_foldl) simp

lemma le_total_of:
  "\<forall>x \<in> set ps. 0 \<le> messages (snd x) \<Longrightarrow>
   0 \<le> total_of ps \<and> (\<forall>x \<in> set ps. messages (snd x) \<le> total_of ps)"
proof (induction ps)
  case Nil
  then show ?case by (simp add: total_of_Nil)
next
  case (Cons p ps)
  then have ih: "0 \<le> total_of ps" "\<forall>x \<in> set ps. messages (snd x) \<le> total_of ps" by simp_all
  from Cons.prems have "0 \<le> messages (snd p)" by simp
  with ih show ?case by (auto simp: total_of_Cons intro: order_trans)
qed

lemma messages_range:
  assumes "map_of (fst (ingest_lines lines)) k = Some u"
  shows "0 \<le> messages u \<and> messages u \<le> snd (ingest_lines lines)"
proof -
  from assms have m: "(k, u) \<in> set (fst (ingest_lines lines))" by (rule map_of_SomeD)
  from inv_ingest_lines[of lines] have t: "total_of (fst (ingest_lines lines)) = snd (ingest_lines lines)"
    by (simp add: state_inv_def)
  from le_total_of[OF nonneg_ingest_lines, of lines] m t nonneg_ingest_lines[of lines]
  show ?thesis by fastforce
qed

text \<open>
  Claim C8, as the code has it.  In what \<open>analyze_chat\<close> returns, the contribution of
  a record is the float \<open>round(messages / total_messages * 100, 2)\<close> of its final count
  and of the total after the last line, and 0 for every record when the total is 0; no
  lines give no record and a total of 0.  The count lies between 0 and the total.  The
  contribution is the float nearest to a decimal with two places, at most 2^-47 from it,
  and this decimal is at most 0.005 from the float product \<open>messages / total * 100\<close>,
  itself at most 2^-45 from the exact percentage: the contribution is within
  0.005 + 2^-45 of the exact percentage.  With 10 messages in all, 2 of Eve and none of
  Frank, Eve has 20 and Frank has 0; 1 of 3 gives the float 33.33.
\<close>

theorem contribution_value:
  "snd (analyze_chat lines) = snd (ingest_lines lines) \<and>
   (map_of (fst (analyze_chat lines)) k = Some v \<longrightarrow>
      messages v = messages (getitem (fst (ingest_lines lines)) k) \<and>
      contribution v =
        (if snd (analyze_chat lines) \<noteq> 0
         then py_round (float_mul (truediv (messages v) (snd (analyze_chat lines))) 100) 2
         else 0) \<and>
      0 \<le> messages v \<and> messages v \<le> snd (analyze_chat lines) \<and>
      (snd (analyze_chat lines) \<noteq> 0 \<longrightarrow>
         (\<exists>n. contribution v = fl (of_int n / 100) \<and>
              \<bar>of_int n / 100 - float_mul (truediv (messages v) (snd (analyze_chat lines))) 100\<bar>
                \<le> 1 / 200 \<and>
              \<bar>contribution v - of_int n / 100\<bar> \<le> 1 / 2 ^ 47) \<and>
         \<bar>float_mul (truediv (messages v) (snd (analyze_chat lines))) 100
            - 100 * of_int (messages v) / of_int (snd (analyze_chat lines))\<bar> \<le> 1 / 2 ^ 45 \<and>
         \<bar>contribution v - 100 * of_int (messages v) / of_int (snd (analyze_chat lines))\<bar>
           \<le> 1 / 200 + 1 / 2 ^ 45)) \<and>
   (snd (analyze_chat lines) = 0 \<longrightarrow>
      (\<forall>x \<in> set (fst (analyze_chat lines)). contribution (snd x) = 0)) \<and>
   analyze_chat [] = ([], 0) \<and>
   (map_of (fst (analyze_chat lines)) ''Eve'' = Some ve \<and> messages ve = 2 \<and>
    map_of (fst (analyze_chat lines)) ''Frank'' = Some vf \<and> messages vf = 0 \<and>
    snd (analyze_chat lines) = 10 \<longrightarrow> contribution ve = 20 \<and> contribution vf = 0) \<and>
   contribution_of 1 3 = 2345390243441541 / 70368744177664 \<and>
   fl (3333 / 100) = 2345390243441541 / 70368744177664"
proof -
  have t: "snd (analyze_chat lines) = snd (ingest_lines lines)"
    by (simp add: analyze_chat_def snd_finalize)
  have r: "messages v = messages (getitem (fst (ingest_lines lines)) k) \<and>
      contribution v = contribution_of (messages v) (snd (analyze_chat lines))"
    if h: "map_of (fst (analyze_chat lines)) k = Some v" for k v
    using h unfolding t by (auto simp: analyze_chat_def map_of_finalize getitem_def)
  have g: "0 \<le> messages v \<and> messages v \<le> snd (analyze_chat lines) \<and>
      (snd (analyze_chat lines) \<noteq> 0 \<longrightarrow>
         (\<exists>n. contribution v = fl (of_int n / 100) \<and>
              \<bar>of_int n / 100 - float_mul (truediv (messages v) (snd (analyze_chat lines))) 100\<bar>
                \<le> 1 / 200 \<and>
              \<bar>contribution v - of_int n / 100\<bar> \<le> 1 / 2 ^ 47) \<and>
         \<bar>float_mul (truediv (messages v) (snd (analyze_chat lines))) 100
            - 100 * of_int (messages v) / of_int (snd (analyze_chat lines))\<bar> \<le> 1 / 2 ^ 45 \<and>
         \<bar>contribution v - 100 * of_int (messages v) / of_int (snd (analyze_chat lines))\<bar>
           \<le> 1 / 200 + 1 / 2 ^ 45)"
    if h: "map_of (fst (analyze_chat lines)) k = Some v" for k v
  proof -
    from h obtain u where u: "map_of (fst (ingest_lines lines)) k = Some u" "messages v = messages u"
      by (auto simp: analyze_chat_def map_of_finalize)
    from messages_range[OF u(1)] u(2) have mr: "0 \<le> messages v" "messages v \<le> snd (ingest_lines lines)"
      by simp_all
    have "(\<exists>n. contribution v = fl (of_int n / 100) \<and>
              \<bar>of_int n / 100 - float_mul (truediv (messages v) (snd (ingest_lines lines))) 100\<bar>
                \<le> 1 / 200 \<and>
              \<bar>contribution v - of_int n / 100\<bar> \<le> 1 / 2 ^ 47) \<and>
         \<bar>float_mul (truediv (messages v) (snd (ingest_lines lines))) 100
            - 100 * of_int (messages v) / of_int (snd (ingest_lines lines))\<bar> \<le> 1 / 2 ^ 45 \<and>
         \<bar>contribution v - 100 * of_int (messages v) / of_int (snd (ingest_lines lines))\<bar>
           \<le> 1 / 200 + 1 / 2 ^ 45"
      if nz: "snd (ingest_lines lines) \<noteq> 0"
    proof -
      from mr nz have p: "0 < snd (ingest_lines lines)" by simp
      from r[OF h] nz have c: "contribution v
          = py_round (float_mul (truediv (messages v) (snd (ingest_lines lines))) 100) 2"
        by (simp add: contribution_of_def t)
      from contribution_error[OF mr p] contribution_steps[OF mr p] show ?thesis
        unfolding c by blast
    qed
    with mr show ?thesis unfolding t by blast
  qed
  have z: "\<forall>x \<in> set (fst (analyze_chat lines)). contribution (snd x) = 0"
    if h: "snd (analyze_chat lines) = 0"
  proof
    fix x assume "x \<in> set (fst (analyze_chat lines))"
    then have "(fst x, snd x) \<in> set (fst (finalize (ingest_lines lines)))"
      by (simp add: analyze_chat_def)
    from contribution_finalize[OF this] h show "contribution (snd x) = 0"
      by (simp add: t contribution_of_def)
  qed
  have e: "analyze_chat [] = ([], 0)"
    by (simp add: analyze_chat_def ingest_lines_def)
  have c1: "contribution_of 2 10 = 20" by code_simp
  have c2: "contribution_of 0 10 = 0" by code_simp
  have c3: "contribution_of 1 3 = 2345390243441541 / 70368744177664" by code_simp
  have c4: "fl (3333 / 100) = 2345390243441541 / 70368744177664" by code_simp
  have ex: "contribution ve = 20 \<and> contribution vf = 0"
    if h: "map_of (fst (analyze_chat lines)) ''Eve'' = Some ve \<and> messages ve = 2 \<and>
    map_of (fst (analyze_chat lines)) ''Frank'' = Some vf \<and> messages vf = 0 \<and>
    snd (analyze_chat lines) = 10"
    using r[of "''Eve''" ve] r[of "''Frank''" vf] h c1 c2 by simp
  have r': "messages v = messages (getitem (fst (ingest_lines lines)) k) \<and>
      contribution v =
        (if snd (analyze_chat lines) \<noteq> 0
         then py_round (float_mul (truediv (messages v) (snd (analyze_chat lines))) 100) 2
         else 0)"
    if h: "map_of (fst (analyze_chat lines)) k = Some v"
    using r[OF h] by (simp add: contribution_of_def)
  from t r' g z e ex c3 c4 show ?thesis by blast
qed

lemma example_ingest:
  "ingest_lines [''1/5/23, 10:00 - Eve: hi'', ''Eve added Frank'', ''1/5/23, 10:01 - Gus: a'',
     ''1/5/23, 10:02 - Gus: b'', ''1/5/23, 10:03 - Gus: c'', ''1/5/23, 10:04 - Gus: d'',
     ''1/5/23, 10:05 - Gus: e'', ''1/5/23, 10:06 - Gus: f'', ''1/5/23, 10:07 - Gus: g'',
     ''1/5/23, 10:08 - Gus: h'', ''1/5/23, 10:09 - Eve: bye'']
   = ([(''Eve'', \<lparr>messages = 2, last_msg = Some \<lparr>year = 2023, month = 5, day = 1, hour = 10,
          minute = 9, second = 0, microsecond = 0\<rparr>\<rparr>),
       (''Frank'', \<lparr>messages = 0, last_msg = None\<rparr>),
       (''Gus'', \<lparr>messages = 8, last_msg = Some \<lparr>year = 2023, month = 5, day = 1, hour = 10,
          minute = 8, second = 0, microsecond = 0\<rparr>\<rparr>)], 10)"
  by code_simp

lemma example_ingest_thirds:
  "ingest_lines [''1/5/23, 10:00 - Ann: hi'', ''1/5/23, 10:01 - Bob: a'', ''1/5/23, 10:02 - Bob: b'']
   = ([(''Ann'', \<lparr>messages = 1, last_msg = Some \<lparr>year = 2023, month = 5, day = 1, hour = 10,
          minute = 0, second = 0, microsecond = 0\<rparr>\<rparr>),
       (''Bob'', \<lparr>messages = 2, last_msg = Some \<lparr>year = 2023, month = 5, day = 1, hour = 10,
          minute = 2, second = 0, microsecond = 0\<rparr>\<rparr>)], 3)"
  by code_simp

theorem contribution_value_witness:
  "map_of (fst (analyze_chat [''1/5/23, 10:00 - Eve: hi'', ''Eve added Frank'', ''1/5/23, 10:01 - Gus: a'',
     ''1/5/23, 10:02 - Gus: b'', ''1/5/23, 10:03 - Gus: c'', ''1/5/23, 10:04 - Gus: d'',
     ''1/5/23, 10:05 - Gus: e'', ''1/5/23, 10:06 - Gus: f'', ''1/5/23, 10:07 - Gus: g'',
     ''1/5/23, 10:08 - Gus: h'', ''1/5/23, 10:09 - Eve: bye''])) ''Eve''
     = Some \<lparr>messages = 2, last_msg = Some \<lparr>year = 2023, month = 5, day = 1, hour = 10,
          minute = 9, second = 0, microsecond = 0\<rparr>, contribution = 20\<rparr> \<and>
   map_of (fst (analyze_chat [''1/5/23, 10:00 - Eve: hi'', ''Eve added Frank'', ''1/5/23, 10:01 - Gus: a'',
     ''1/5/23, 10:02 - Gus: b'', ''1/5/23, 10:03 - Gus: c'', ''1/5/23, 10:04 - Gus: d'',
     ''1/5/23, 10:05 - Gus: e'', ''1/5/23, 10:06 - Gus: f'', ''1/5/23, 10:07 - Gus: g'',
     ''1/5/23, 10:08 - Gus: h'', ''1/5/23, 10:09 - Eve: bye''])) ''Frank''
     = Some \<lparr>messages = 0, last_msg = None, contribution = 0\<rparr> \<and>
   snd (analyze_chat [''1/5/23, 10:00 - Eve: hi'', ''Eve added Frank'', ''1/5/23, 10:01 - Gus: a'',
     ''1/5/23, 10:02 - Gus: b'', ''1/5/23, 10:03 - Gus: c'', ''1/5/23, 10:04 - Gus: d'',
     ''1/5/23, 10:05 - Gus: e'', ''1/5/23, 10:06 - Gus: f'', ''1/5/23, 10:07 - Gus: g'',
     ''1/5/23, 10:08 - Gus: h'', ''1/5/23, 10:09 - Eve: bye'']) = 10 \<and>
   map_of (fst (analyze_chat [''1/5/23, 10:00 - Ann: hi'', ''1/5/23, 10:01 - Bob: a'', ''1/5/23, 10:02 - Bob: b''])) ''Ann''
     = Some \<lparr>messages = 1, last_msg = Some \<lparr>year = 2023, month = 5, day = 1, hour = 10,
          minute = 0, second = 0, microsecond = 0\<rparr>,
          contribution = 2345390243441541 / 70368744177664\<rparr> \<and>
   snd (analyze_chat [''1/5/23, 10:00 - Ann: hi'', ''1/5/23, 10:01 - Bob: a'', ''1/5/23, 10:02 - Bob: b'']) = 3 \<and>
   (\<exists>n. (2345390243441541 / 70368744177664 :: rat) = fl (of_int n / 100) \<and>
        \<bar>of_int n / 100 - float_mul (truediv 1 3) 100\<bar> \<le> 1 / 200) \<and>
   \<bar>(2345390243441541 / 70368744177664 :: rat) - 100 * 1 / 3\<bar> \<le> 1 / 200 + 1 / 2 ^ 45"
proof -
  let ?L = "[''1/5/23, 10:00 - Eve: hi'', ''Eve added Frank'', ''1/5/23, 10:01 - Gus: a'',
     ''1/5/23, 10:02 - Gus: b'', ''1/5/23, 10:03 - Gus: c'', ''1/5/23, 10:04 - Gus: d'',
     ''1/5/23, 10:05 - Gus: e'', ''1/5/23, 10:06 - Gus: f'', ''1/5/23, 10:07 - Gus: g'',
     ''1/5/23, 10:08 - Gus: h'', ''1/5/23, 10:09 - Eve: bye'']"
  let ?ve = "\<lparr>messages = 2, last_msg = Some \<lparr>year = 2023, month = 5, day = 1, hour = 10,
          minute = 9, second = 0, microsecond = 0\<rparr>,
          contribution = contribution_of 2 10\<rparr>"
  let ?vf = "\<lparr>messages = 0, last_msg = None, contribution = contribution_of 0 10\<rparr>"
  have t: "snd (analyze_chat ?L) = 10"
    by (simp add: analyze_chat_def example_ingest)
  have e: "map_of (fst (analyze_chat ?L)) ''Eve'' = Some ?ve"
    by (simp add: analyze_chat_def example_ingest)
  have f: "map_of (fst (analyze_chat ?L)) ''Frank'' = Some ?vf"
    by (simp add: analyze_chat_def example_ingest)
  note m = contribution_value [of ?L "''Eve''" ?ve ?ve ?vf]
  from m e f t have c: "contribution ?ve = 20 \<and> contribution ?vf = 0"
    by simp
  then have "?ve = \<lparr>messages = 2, last_msg = Some \<lparr>year = 2023, month = 5, day = 1, hour = 10,
          minute = 9, second = 0, microsecond = 0\<rparr>, contribution = 20\<rparr>"
    and "?vf = \<lparr>messages = 0, last_msg = None, contribution = 0\<rparr>"
    by simp_all
  with e f t have first: "map_of (fst (analyze_chat ?L)) ''Eve''
     = Some \<lparr>messages = 2, last_msg = Some \<lparr>year = 2023, month = 5, day = 1, hour = 10,
          minute = 9, second = 0, microsecond = 0\<rparr>, contribution = 20\<rparr> \<and>
   map_of (fst (analyze_chat ?L)) ''Frank''
     = Some \<lparr>messages = 0, last_msg = None, contribution = 0\<rparr> \<and>
   snd (analyze_chat ?L) = 10" by simp
  let ?M = "[''1/5/23, 10:00 - Ann: hi'', ''1/5/23, 10:01 - Bob: a'', ''1/5/23, 10:02 - Bob: b'']"
  let ?va = "\<lparr>messages = 1, last_msg = Some \<lparr>year = 2023, month = 5, day = 1, hour = 10,
          minute = 0, second = 0, microsecond = 0\<rparr>,
          contribution = 2345390243441541 / 70368744177664\<rparr>"
  have c3: "contribution_of 1 3 = 2345390243441541 / 70368744177664" by code_simp
  have t3: "snd (analyze_chat ?M) = 3"
    by (simp add: analyze_chat_def example_ingest_thirds)
  have a3: "map_of (fst (analyze_chat ?M)) ''Ann'' = Some ?va"
    by (simp add: analyze_chat_def example_ingest_thirds c3)
  note m3 = contribution_value [of ?M "''Ann''" ?va ?ve ?vf]
  from m3 a3 t3 have "(\<exists>n. contribution ?va = fl (of_int n / 100) \<and>
        \<bar>of_int n / 100 - float_mul (truediv (messages ?va) 3) 100\<bar> \<le> 1 / 200 \<and>
        \<bar>contribution ?va - of_int n / 100\<bar> \<le> 1 / 2 ^ 47) \<and>
      \<bar>contribution ?va - 100 * of_int (messages ?va) / of_int 3\<bar> \<le> 1 / 200 + 1 / 2 ^ 45"
    by simp
  then have second: "(\<exists>n. (2345390243441541 / 70368744177664 :: rat) = fl (of_int n / 100) \<and>
        \<bar>of_int n / 100 - float_mul (truediv 1 3) 100\<bar> \<le> 1 / 200) \<and>
      \<bar>(2345390243441541 / 70368744177664 :: rat) - 100 * 1 / 3\<bar> \<le> 1 / 200 + 1 / 2 ^ 45"
    by auto
  from first a3 t3 second show ?thesis by blast
qed

text \<open>
  Claim C8, as it is stated, fails at 23 messages of 160: the exact percentage is
  14.375, which rounds to 14.38 at two places; the float product is below 14.375 and the
  code gives the float 14.37.
\<close>

theorem contribution_exact_counterexample:
  "contribution_of 23 160 = fl (1437 / 100) \<and>
   contribution_of 23 160 = 8089590830664253 / 562949953421312 \<and>
   (100 * 23 / 160 :: rat) = 14375 / 1000 \<and>
   rhe (100 * 23 / 160 * 100) = 1438 \<and>
   float_mul (truediv 23 160) 100 < 14375 / 1000 \<and>
   contribution_of 23 160 \<noteq> fl (of_int (rhe (100 * 23 / 160 * 100)) / 100) \<and>
   contribution_of 23 160 \<noteq> of_int (rhe (100 * 23 / 160 * 100)) / 100"
proof -
  have a: "contribution_of 23 160 = 8089590830664253 / 562949953421312" by code_simp
  have b: "fl (1437 / 100) = 8089590830664253 / 562949953421312" by code_simp
  have c: "rhe (100 * 23 / 160 * 100) = 1438" by code_simp
  have d: "float_mul (truediv 23 160) 100 < 14375 / 1000" by code_simp
  have e: "fl (1438 / 100) \<noteq> 8089590830664253 / 562949953421312" by code_simp
  have f: "(100 * 23 / 160 :: rat) = 14375 / 1000" by simp
  have g: "(1438 / 100 :: rat) \<noteq> 8089590830664253 / 562949953421312" by simp
  from a b c d e f g show ?thesis by simp
qed

end
